theory Spec2Isabelle
  imports Complex_Main
begin

section \<open>Geometry utilities of the room canvas\<close>

text \<open>
  The canvas component (\<^verbatim>\<open>EnhancedRoomCanvas\<close>) works on JavaScript numbers. They are
  modelled as mathematical reals: grid coordinates are integers far below \<open>2^53\<close>, where
  double arithmetic is exact, and the remaining quantities (pixels, distances, angles) are
  taken in exact arithmetic. The fields \<^verbatim>\<open>x\<close> and \<^verbatim>\<open>y\<close> of the interface \<^verbatim>\<open>Point\<close> are
  called \<open>px\<close> and \<open>py\<close> so that they do not capture variable names.
\<close>

record Point =
  px :: real
  py :: real

definition pt :: "real \<Rightarrow> real \<Rightarrow> Point" where
  "pt a b = \<lparr>px = a, py = b\<rparr>"

subsection \<open>Area\<close>

text \<open>
  \<^verbatim>\<open>for (let i = 0; i < points.length; i++) { const j = (i + 1) % points.length;
       area += points[i].x * points[j].y; area -= points[j].x * points[i].y; }\<close>
  The loop is the function \<open>area_loop\<close> on the counter and the accumulator.
\<close>

function area_loop :: "Point list \<Rightarrow> nat \<Rightarrow> real \<Rightarrow> real" where
  "area_loop points i area =
     (if i < length points
      then (let j = (i + 1) mod length points;
                area1 = area + px (points ! i) * py (points ! j);
                area2 = area1 - px (points ! j) * py (points ! i)
            in area_loop points (i + 1) area2)
      else area)"
  by pat_completeness auto
termination
  by (relation "measure (\<lambda>(points, i, area). length points - i)") auto

definition calculateArea :: "Point list \<Rightarrow> real" where
  "calculateArea points =
     (if length points < 3 then 0 else \<bar>area_loop points 0 0\<bar> / 2)"

text \<open>The summand of the shoelace formula at index \<open>i\<close>, indices modulo the length.\<close>

definition shoelace_term :: "Point list \<Rightarrow> nat \<Rightarrow> real" where
  "shoelace_term points i =
     px (points ! i) * py (points ! ((i + 1) mod length points))
     - px (points ! ((i + 1) mod length points)) * py (points ! i)"

definition shoelace_sum :: "Point list \<Rightarrow> real" where
  "shoelace_sum points = (\<Sum>i<length points. shoelace_term points i)"

declare area_loop.simps [simp del]

lemma area_loop_sum:
  "area_loop points i area = area + (\<Sum>k = i..<length points. shoelace_term points k)"
proof (induction points i area rule: area_loop.induct)
  case (1 points i area)
  show ?case
  proof (cases "i < length points")
    case False
    then show ?thesis by (simp add: area_loop.simps [of points i area])
  next
    case True
    define a where "a = area + px (points ! i) * py (points ! ((i + 1) mod length points))
        - px (points ! ((i + 1) mod length points)) * py (points ! i)"
    have a_eq: "a = area + shoelace_term points i"
      by (simp add: a_def shoelace_term_def)
    have "area_loop points i area = area_loop points (i + 1) a"
      using True by (simp add: area_loop.simps [of points i area] Let_def a_def)
    also have "\<dots> = a + (\<Sum>k = i + 1..<length points. shoelace_term points k)"
      unfolding a_def by (rule "1.IH" [OF True refl refl refl])
    also have "\<dots> = area + (\<Sum>k = i..<length points. shoelace_term points k)"
      using True by (simp add: a_eq sum.atLeast_Suc_lessThan)
    finally show ?thesis .
  qed
qed

lemma calculateArea_shoelace:
  "calculateArea points = (if length points < 3 then 0 else \<bar>shoelace_sum points\<bar> / 2)"
  by (simp add: calculateArea_def area_loop_sum shoelace_sum_def atLeast0LessThan)

lemma shoelace_rotate1: "shoelace_sum (rotate1 ps) = shoelace_sum ps"
proof (cases ps)
  case Nil
  then show ?thesis by simp
next
  case (Cons a as)
  define n where "n = length as"
  have len: "length ps = Suc n" by (simp add: Cons n_def)
  have nth_r: "rotate1 ps ! i = ps ! (Suc i mod Suc n)" if "i < Suc n" for i
    using that len by (metis nth_rotate1)
  have t: "shoelace_term (rotate1 ps) i = shoelace_term ps (Suc i mod Suc n)"
    if "i < Suc n" for i
    using that by (simp add: shoelace_term_def len nth_r mod_Suc_eq)
  have "shoelace_sum (rotate1 ps) = (\<Sum>i<Suc n. shoelace_term ps (Suc i mod Suc n))"
    by (simp add: shoelace_sum_def len t)
  also have "\<dots> = (\<Sum>i<n. shoelace_term ps (Suc i)) + shoelace_term ps 0"
    by simp
  also have "\<dots> = (\<Sum>i<Suc n. shoelace_term ps i)"
    using sum.lessThan_Suc_shift [of "shoelace_term ps" n] by simp
  finally show ?thesis by (simp add: shoelace_sum_def len)
qed

lemma shoelace_rotate: "shoelace_sum (rotate k ps) = shoelace_sum ps"
  by (induction k) (simp_all add: shoelace_rotate1)

lemma shoelace_rev: "shoelace_sum (rev ps) = - shoelace_sum ps"
proof (cases ps)
  case Nil
  then show ?thesis by (simp add: shoelace_sum_def)
next
  case (Cons a as)
  define n where "n = length as"
  have len: "length ps = Suc n" by (simp add: Cons n_def)
  have last_t: "shoelace_term (rev ps) n = - shoelace_term ps n"
    by (simp add: shoelace_term_def len rev_nth)
  have t: "shoelace_term (rev ps) i = - shoelace_term ps (n - Suc i)" if "i < n" for i
  proof -
    have a: "Suc i mod Suc n = Suc i" using that by simp
    have b: "Suc (n - Suc i) mod Suc n = Suc (n - Suc i)" using that by simp
    have c: "n - (n - Suc i) = Suc i" "Suc (n - Suc i) = n - i" using that by simp_all
    show ?thesis
      using that by (simp add: shoelace_term_def len rev_nth a b c)
  qed
  have "shoelace_sum (rev ps) =
      (\<Sum>i<n. shoelace_term (rev ps) i) + shoelace_term (rev ps) n"
    by (simp add: shoelace_sum_def len)
  also have "\<dots> = (\<Sum>i<n. - shoelace_term ps (n - Suc i)) - shoelace_term ps n"
    by (simp add: t last_t)
  also have "\<dots> = - (\<Sum>i<n. shoelace_term ps (n - Suc i)) - shoelace_term ps n"
    by (simp add: sum_negf)
  also have "\<dots> = - (\<Sum>i<n. shoelace_term ps i) - shoelace_term ps n"
    by (simp add: sum.nat_diff_reindex)
  also have "\<dots> = - shoelace_sum ps"
    by (simp add: shoelace_sum_def len)
  finally show ?thesis .
qed

text \<open>
  Claim C1. For every list of points, \<open>calculateArea\<close> returns the shoelace value
  \<open>\<bar>\<Sum>(x\<^sub>i y\<^sub>i\<^sub>+\<^sub>1 - x\<^sub>i\<^sub>+\<^sub>1 y\<^sub>i)\<bar> / 2\<close> with the indices taken modulo the length of the list; for
  a list of fewer than 3 points it returns 0 (the early return comes before any element is
  read); for the square (0,0), (4,0), (4,4), (0,4) it returns 16.
\<close>

theorem calculateArea_is_shoelace:
  "calculateArea points =
     (if length points < 3 then 0
      else \<bar>\<Sum>i<length points.
              px (points ! i) * py (points ! ((i + 1) mod length points))
              - px (points ! ((i + 1) mod length points)) * py (points ! i)\<bar> / 2)
   \<and> calculateArea [] = 0
   \<and> calculateArea [pt 0 0, pt 4 0, pt 4 4, pt 0 4] = 16"
proof -
  have "calculateArea [pt 0 0, pt 4 0, pt 4 4, pt 0 4] = 16"
    by (simp add: calculateArea_shoelace shoelace_sum_def shoelace_term_def pt_def
        lessThan_nat_numeral lessThan_Suc)
  moreover have "calculateArea [] = 0"
    by (simp add: calculateArea_def)
  ultimately show ?thesis
    by (simp add: calculateArea_shoelace shoelace_sum_def shoelace_term_def)
qed

text \<open>
  Claim C7. The area of a vertex list equals the area of the reversed list, and it is the
  same for every cyclic rotation of the list. In exact arithmetic this holds for every
  list, in particular for the lists of at least 3 points of the claim.
\<close>

theorem calculateArea_rev_rotate:
  "calculateArea (rev P) = calculateArea P \<and> calculateArea (rotate k P) = calculateArea P"
  by (simp add: calculateArea_shoelace shoelace_rev shoelace_rotate)

subsection \<open>Coordinate transform\<close>

text \<open>
  \<^verbatim>\<open>screenToGrid\<close> and \<^verbatim>\<open>gridToScreen\<close> close over the prop \<^verbatim>\<open>zoom\<close> and the state
  \<^verbatim>\<open>viewOffset\<close>; here both are arguments. \<^verbatim>\<open>Math.round\<close> rounds to the nearest integer,
  a tie going up.
\<close>

definition GRID_SIZE :: real where
  "GRID_SIZE = 20"

definition Math_round :: "real \<Rightarrow> real" where
  "Math_round v = of_int \<lfloor>v + 1 / 2\<rfloor>"

definition screenToGrid :: "real \<Rightarrow> Point \<Rightarrow> Point \<Rightarrow> Point" where
  "screenToGrid zoom viewOffset point =
     (let scale = GRID_SIZE * (zoom / 100)
      in \<lparr>px = Math_round ((px point - px viewOffset) / scale),
          py = Math_round ((py point - py viewOffset) / scale)\<rparr>)"

definition gridToScreen :: "real \<Rightarrow> Point \<Rightarrow> Point \<Rightarrow> Point" where
  "gridToScreen zoom viewOffset point =
     (let scale = GRID_SIZE * (zoom / 100)
      in \<lparr>px = px point * scale + px viewOffset,
          py = py point * scale + py viewOffset\<rparr>)"

lemma Math_round_close: "\<bar>Math_round v - v\<bar> \<le> 1 / 2"
  unfolding Math_round_def by linarith

lemma Math_round_int: "v \<in> \<int> \<Longrightarrow> Math_round v = v"
  unfolding Math_round_def by (auto elim!: Ints_cases)

lemma round_trip_component:
  assumes "0 < s"
  shows "\<bar>Math_round ((a - b) / s) * s + b - a\<bar> \<le> s / 2"
proof -
  have "Math_round ((a - b) / s) * s + b - a = (Math_round ((a - b) / s) - (a - b) / s) * s"
    using assms by (simp add: field_simps)
  then have "\<bar>Math_round ((a - b) / s) * s + b - a\<bar> = \<bar>(Math_round ((a - b) / s) - (a - b) / s) * s\<bar>"
    by simp
  also have "\<dots> = \<bar>Math_round ((a - b) / s) - (a - b) / s\<bar> * s"
    using assms by (simp add: abs_mult)
  also have "\<dots> \<le> (1 / 2) * s"
    using assms Math_round_close [of "(a - b) / s"] by (intro mult_right_mono) simp_all
  finally show ?thesis by simp
qed

lemma grid_screen_grid_component:
  assumes "0 < s" "g \<in> \<int>"
  shows "Math_round ((g * s + b - b) / s) = g"
  using assms by (simp add: Math_round_int)

text \<open>
  Claim C2. For a fixed positive zoom and pan offset, \<open>gridToScreen\<close> computes
  \<open>gridPoint * GRID_SIZE * (zoom / 100) + viewOffset\<close> componentwise with \<open>GRID_SIZE = 20\<close>,
  and \<open>gridToScreen (screenToGrid p)\<close> differs from \<open>p\<close> by at most half a grid cell
  (\<open>GRID_SIZE * (zoom / 100) / 2\<close> pixels) in each coordinate, the rounding tolerance;
  converting that point back to the grid returns the same grid point, and in the other
  direction \<open>screenToGrid (gridToScreen g)\<close> is \<open>g\<close> for every point \<open>g\<close> of the integer grid.
\<close>

theorem screenToGrid_gridToScreen:
  "0 < zoom \<Longrightarrow>
     gridToScreen zoom off g =
       \<lparr>px = px g * GRID_SIZE * (zoom / 100) + px off,
        py = py g * GRID_SIZE * (zoom / 100) + py off\<rparr>
   \<and> GRID_SIZE = 20
   \<and> \<bar>px (gridToScreen zoom off (screenToGrid zoom off p)) - px p\<bar> \<le> GRID_SIZE * (zoom / 100) / 2
   \<and> \<bar>py (gridToScreen zoom off (screenToGrid zoom off p)) - py p\<bar> \<le> GRID_SIZE * (zoom / 100) / 2
   \<and> screenToGrid zoom off (gridToScreen zoom off (screenToGrid zoom off p)) = screenToGrid zoom off p
   \<and> (px g \<in> \<int> \<and> py g \<in> \<int> \<longrightarrow> screenToGrid zoom off (gridToScreen zoom off g) = g)"
proof -
  assume z: "0 < zoom"
  define s where "s = GRID_SIZE * (zoom / 100)"
  have s: "0 < s" using z by (simp add: s_def GRID_SIZE_def)
  have 1: "\<bar>px (gridToScreen zoom off (screenToGrid zoom off p)) - px p\<bar> \<le> s / 2"
    using round_trip_component [OF s, of "px p" "px off"]
    by (simp add: gridToScreen_def screenToGrid_def Let_def s_def)
  have 2: "\<bar>py (gridToScreen zoom off (screenToGrid zoom off p)) - py p\<bar> \<le> s / 2"
    using round_trip_component [OF s, of "py p" "py off"]
    by (simp add: gridToScreen_def screenToGrid_def Let_def s_def)
  have i: "Math_round v \<in> \<int>" for v by (simp add: Math_round_def)
  have 3: "screenToGrid zoom off (gridToScreen zoom off (screenToGrid zoom off p)) = screenToGrid zoom off p"
    using s grid_screen_grid_component [OF s i]
    by (simp add: gridToScreen_def screenToGrid_def Let_def s_def [symmetric])
  have 4: "screenToGrid zoom off (gridToScreen zoom off g) = g"
    if "px g \<in> \<int>" "py g \<in> \<int>"
    unfolding gridToScreen_def screenToGrid_def Let_def s_def [symmetric]
    using s that by (simp add: Math_round_int)
  show ?thesis using 1 2 3 4
    by (simp add: s_def gridToScreen_def Let_def GRID_SIZE_def)
qed

theorem screenToGrid_gridToScreen_witness:
  "(0::real) < 100
   \<and> screenToGrid 100 (pt 50 50) (pt 137 262) = pt 4 11
   \<and> gridToScreen 100 (pt 50 50) (pt 4 11) = pt 130 270
   \<and> screenToGrid 100 (pt 50 50) (gridToScreen 100 (pt 50 50) (pt 4 11)) = pt 4 11
   \<and> \<bar>px (gridToScreen 100 (pt 50 50) (screenToGrid 100 (pt 50 50) (pt 137 262))) - 137\<bar> \<le> 10
   \<and> \<bar>py (gridToScreen 100 (pt 50 50) (screenToGrid 100 (pt 50 50) (pt 137 262))) - 262\<bar> \<le> 10"
proof -
  have a: "screenToGrid 100 (pt 50 50) (pt 137 262) = pt 4 11"
    by (simp add: screenToGrid_def GRID_SIZE_def pt_def Math_round_def)
  have b: "gridToScreen 100 (pt 50 50) (pt 4 11) = pt 130 270"
    by (simp add: gridToScreen_def GRID_SIZE_def pt_def)
  have c: "screenToGrid 100 (pt 50 50) (pt 130 270) = pt 4 11"
    by (simp add: screenToGrid_def GRID_SIZE_def pt_def Math_round_def)
  show ?thesis
    using screenToGrid_gridToScreen [of 100 "pt 50 50" "pt 4 11" "pt 137 262"] a b c
    by (simp add: GRID_SIZE_def pt_def)
qed

subsection \<open>Rectangle detection\<close>

text \<open>
  The entries pushed onto \<^verbatim>\<open>sides\<close>: \<^verbatim>\<open>{dx, dy, length}\<close>. The field \<^verbatim>\<open>length\<close> is called
  \<open>side_length\<close> here. \<^verbatim>\<open>Math.pow(v, 2)\<close> is \<open>v\<^sup>2\<close>.
\<close>

record Side =
  dx :: real
  dy :: real
  side_length :: real

definition side_of :: "Point list \<Rightarrow> nat \<Rightarrow> Side" where
  "side_of points i =
     (let current = points ! i;
          next = points ! ((i + 1) mod 4)
      in \<lparr>dx = px next - px current,
          dy = py next - py current,
          side_length = sqrt ((px next - px current)\<^sup>2 + (py next - py current)\<^sup>2)\<rparr>)"

definition checkIfRectangle :: "Point list \<Rightarrow> bool" where
  "checkIfRectangle points =
     (if length points \<noteq> 4 then False
      else
        (let sides = map (side_of points) [0..<4];
             side1 = sides ! 0;
             side2 = sides ! 1;
             side3 = sides ! 2;
             side4 = sides ! 3;
             parallel13 = (\<bar>dx side1 * dy side3 - dy side1 * dx side3\<bar> < 0.1);
             parallel24 = (\<bar>dx side2 * dy side4 - dy side2 * dx side4\<bar> < 0.1);
             equalLength13 = (\<bar>side_length side1 - side_length side3\<bar> < 0.1);
             equalLength24 = (\<bar>side_length side2 - side_length side4\<bar> < 0.1);
             perpendicular12 = (\<bar>dx side1 * dx side2 + dy side1 * dy side2\<bar> < 0.1)
         in parallel13 \<and> parallel24 \<and> equalLength13 \<and> equalLength24 \<and> perpendicular12))"

subsection \<open>Straightening a stroke\<close>

text \<open>
  \<^verbatim>\<open>Math.atan2(y, x)\<close>: the angle of the vector \<open>(x, y)\<close> in \<open>(-\<pi>, \<pi>]\<close>, and 0 at the
  origin. The operator \<^verbatim>\<open>%\<close> on numbers is the remainder of the division truncated
  towards zero.
\<close>

definition Math_atan2 :: "real \<Rightarrow> real \<Rightarrow> real" where
  "Math_atan2 b a =
     (if 0 < a then arctan (b / a)
      else if a < 0 \<and> 0 \<le> b then arctan (b / a) + pi
      else if a < 0 \<and> b < 0 then arctan (b / a) - pi
      else if 0 < b then pi / 2
      else if b < 0 then - pi / 2
      else 0)"

definition js_trunc :: "real \<Rightarrow> int" where
  "js_trunc v = (if 0 \<le> v then \<lfloor>v\<rfloor> else \<lceil>v\<rceil>)"

definition js_rem :: "real \<Rightarrow> real \<Rightarrow> real" where
  "js_rem a b = a - b * of_int (js_trunc (a / b))"

definition snapAngles :: "real list" where
  "snapAngles = [0, 45, 90, 135, 180, 225, 270, 315]"

definition snapThreshold :: real where
  "snapThreshold = 15"

definition angleDiff :: "real \<Rightarrow> real \<Rightarrow> real" where
  "angleDiff angleDegrees snapAngle =
     min (min \<bar>angleDegrees - snapAngle\<bar> \<bar>angleDegrees - snapAngle - 360\<bar>)
         \<bar>angleDegrees - snapAngle + 360\<bar>"

definition snappedEnd :: "Point \<Rightarrow> real \<Rightarrow> real \<Rightarrow> Point" where
  "snappedEnd start straightDistance snapAngle =
     (let snapRadians = (snapAngle * pi) / 180
      in \<lparr>px = px start + straightDistance * cos snapRadians,
          py = py start + straightDistance * sin snapRadians\<rparr>)"

text \<open>
  The loop \<^verbatim>\<open>for (const snapAngle of snapAngles)\<close>, which returns from the function at the
  first angle within the threshold: \<open>Some\<close> is that return, \<open>None\<close> is falling out of the
  loop.
\<close>

fun snap_loop :: "Point \<Rightarrow> real \<Rightarrow> real \<Rightarrow> real list \<Rightarrow> Point list option" where
  "snap_loop start straightDistance angleDegrees [] = None"
| "snap_loop start straightDistance angleDegrees (snapAngle # rest) =
     (if angleDiff angleDegrees snapAngle \<le> snapThreshold
      then Some [start, snappedEnd start straightDistance snapAngle]
      else snap_loop start straightDistance angleDegrees rest)"

definition straightDistance_of :: "Point list \<Rightarrow> real" where
  "straightDistance_of points =
     sqrt ((px (last points) - px (hd points))\<^sup>2 + (py (last points) - py (hd points))\<^sup>2)"

definition angleDegrees_of :: "Point list \<Rightarrow> real" where
  "angleDegrees_of points =
     (let angle = Math_atan2 (py (last points) - py (hd points)) (px (last points) - px (hd points))
      in js_rem (angle * 180 / pi + 360) 360)"

definition straightenLine :: "Point list \<Rightarrow> Point list" where
  "straightenLine points =
     (if length points < 2 then points
      else
        (let start = hd points;
             straightDistance = straightDistance_of points
         in if straightDistance < 3 then points
            else (case snap_loop start straightDistance (angleDegrees_of points) snapAngles of
                    Some straightened \<Rightarrow> straightened
                  | None \<Rightarrow> points)))"

subsection \<open>Properties of the rectangle detector\<close>

text \<open>
  The classification of the specification: exactly 4 vertices, opposite sides parallel
  (cross product within 0.1 of zero), opposite sides of equal length (within 0.1) and
  every pair of adjacent sides perpendicular (dot product within 0.1 of zero).
\<close>

definition sides_parallel :: "Side \<Rightarrow> Side \<Rightarrow> bool" where
  "sides_parallel s t = (\<bar>dx s * dy t - dy s * dx t\<bar> < 0.1)"

definition sides_equal_length :: "Side \<Rightarrow> Side \<Rightarrow> bool" where
  "sides_equal_length s t = (\<bar>side_length s - side_length t\<bar> < 0.1)"

definition sides_perpendicular :: "Side \<Rightarrow> Side \<Rightarrow> bool" where
  "sides_perpendicular s t = (\<bar>dx s * dx t + dy s * dy t\<bar> < 0.1)"

definition rectangle_spec :: "Point list \<Rightarrow> bool" where
  "rectangle_spec points =
     (length points = 4
      \<and> sides_parallel (side_of points 0) (side_of points 2)
      \<and> sides_parallel (side_of points 1) (side_of points 3)
      \<and> sides_equal_length (side_of points 0) (side_of points 2)
      \<and> sides_equal_length (side_of points 1) (side_of points 3)
      \<and> sides_perpendicular (side_of points 0) (side_of points 1)
      \<and> sides_perpendicular (side_of points 1) (side_of points 2)
      \<and> sides_perpendicular (side_of points 2) (side_of points 3)
      \<and> sides_perpendicular (side_of points 3) (side_of points 0))"

definition on_grid :: "Point \<Rightarrow> bool" where
  "on_grid p = (px p \<in> \<int> \<and> py p \<in> \<int>)"

lemma upt4: "[0..<4] = [0, 1, 2, 3]"
  by (simp add: upt_rec)

lemma checkIfRectangle_sides:
  "checkIfRectangle points \<longleftrightarrow>
     length points = 4
     \<and> \<bar>dx (side_of points 0) * dy (side_of points 2) - dy (side_of points 0) * dx (side_of points 2)\<bar> < 0.1
     \<and> \<bar>dx (side_of points 1) * dy (side_of points 3) - dy (side_of points 1) * dx (side_of points 3)\<bar> < 0.1
     \<and> \<bar>side_length (side_of points 0) - side_length (side_of points 2)\<bar> < 0.1
     \<and> \<bar>side_length (side_of points 1) - side_length (side_of points 3)\<bar> < 0.1
     \<and> \<bar>dx (side_of points 0) * dx (side_of points 1) + dy (side_of points 0) * dy (side_of points 1)\<bar> < 0.1"
  by (simp add: checkIfRectangle_def upt4 Let_def)

lemma short_int_vector:
  fixes a b :: int
  assumes "sqrt (of_int (a\<^sup>2 + b\<^sup>2)) < 1"
  shows "a = 0 \<and> b = 0"
proof -
  have "(of_int (a\<^sup>2 + b\<^sup>2) :: real) < 1"
    using assms by (simp only: real_sqrt_lt_1_iff)
  then have "a\<^sup>2 + b\<^sup>2 < 1" by linarith
  moreover have "0 \<le> a\<^sup>2" "0 \<le> b\<^sup>2" by simp_all
  ultimately have "a\<^sup>2 = 0" "b\<^sup>2 = 0" by linarith+
  then show ?thesis by simp
qed

lemma small_int: "\<bar>of_int k :: real\<bar> < 0.1 \<Longrightarrow> k = 0"
  by linarith

lemma int_rectangle_core:
  fixes a1 b1 a2 b2 a3 b3 :: int
  assumes c13: "a1 * b3 - b1 * a3 = 0"
    and c24: "a2 * (- (b1 + b2 + b3)) - b2 * (- (a1 + a2 + a3)) = 0"
    and d12: "a1 * a2 + b1 * b2 = 0"
    and l13: "\<bar>sqrt (of_int (a1\<^sup>2 + b1\<^sup>2)) - sqrt (of_int (a3\<^sup>2 + b3\<^sup>2))\<bar> < 0.1"
    and l24: "\<bar>sqrt (of_int (a2\<^sup>2 + b2\<^sup>2))
               - sqrt (of_int ((- (a1 + a2 + a3))\<^sup>2 + (- (b1 + b2 + b3))\<^sup>2))\<bar> < 0.1"
  shows "a3 = - a1 \<and> b3 = - b1"
proof -
  define u v where "u = a1 + a3" and "v = b1 + b3"
  define D where "D = a1 * b2 - b1 * a2"
  have cu1: "a1 * v = b1 * u"
    using c13 by (simp add: u_def v_def algebra_simps)
  have cu2: "a2 * v = b2 * u"
    using c24 by (simp add: u_def v_def algebra_simps)
  have "D * u = a1 * (b2 * u) - a2 * (b1 * u)"
    by (simp add: D_def algebra_simps)
  also have "\<dots> = a1 * (a2 * v) - a2 * (a1 * v)"
    by (simp only: cu1 cu2)
  also have "\<dots> = 0" by (simp add: algebra_simps)
  finally have Du: "D * u = 0" .
  have "D * v = b2 * (a1 * v) - b1 * (a2 * v)"
    by (simp add: D_def algebra_simps)
  also have "\<dots> = b2 * (b1 * u) - b1 * (b2 * u)"
    by (simp only: cu1 cu2)
  also have "\<dots> = 0" by (simp add: algebra_simps)
  finally have Dv: "D * v = 0" .
  have lagrange: "D\<^sup>2 + (a1 * a2 + b1 * b2)\<^sup>2 = (a1\<^sup>2 + b1\<^sup>2) * (a2\<^sup>2 + b2\<^sup>2)"
    by (simp add: D_def power2_eq_square algebra_simps)
  show ?thesis
  proof (cases "D = 0")
    case False
    with Du Dv have "u = 0" "v = 0" by simp_all
    then show ?thesis by (simp add: u_def v_def)
  next
    case True
    with lagrange d12 have "(a1\<^sup>2 + b1\<^sup>2) * (a2\<^sup>2 + b2\<^sup>2) = 0" by simp
    then have "a1\<^sup>2 + b1\<^sup>2 = 0 \<or> a2\<^sup>2 + b2\<^sup>2 = 0" by simp
    then show ?thesis
    proof
      assume z: "a1\<^sup>2 + b1\<^sup>2 = 0"
      then have s1: "a1 = 0" "b1 = 0" by (simp_all add: sum_power2_eq_zero_iff)
      have "sqrt (of_int (a1\<^sup>2 + b1\<^sup>2)) = 0" unfolding z by simp
      with l13 have "sqrt (of_int (a3\<^sup>2 + b3\<^sup>2)) < 1" by linarith
      then have "a3 = 0 \<and> b3 = 0" by (rule short_int_vector)
      with s1 show ?thesis by simp
    next
      assume z: "a2\<^sup>2 + b2\<^sup>2 = 0"
      then have s2: "a2 = 0" "b2 = 0" by (simp_all add: sum_power2_eq_zero_iff)
      have "sqrt (of_int (a2\<^sup>2 + b2\<^sup>2)) = 0" unfolding z by simp
      with l24 have "sqrt (of_int ((- (a1 + a2 + a3))\<^sup>2 + (- (b1 + b2 + b3))\<^sup>2)) < 1"
        by linarith
      then have "- (a1 + a2 + a3) = 0 \<and> - (b1 + b2 + b3) = 0" by (rule short_int_vector)
      with s2 show ?thesis by simp
    qed
  qed
qed

lemma length4_cases:
  assumes "length points = 4"
  obtains p0 p1 p2 p3 where "points = [p0, p1, p2, p3]"
proof -
  from assms obtain p0 r0 where 0: "points = p0 # r0" "length r0 = 3"
    by (cases points) simp_all
  then obtain p1 r1 where 1: "r0 = p1 # r1" "length r1 = 2"
    by (cases r0) simp_all
  then obtain p2 r2 where 2: "r1 = p2 # r2" "length r2 = 1"
    by (cases r1) simp_all
  then obtain p3 where 3: "r2 = [p3]"
    by (cases r2) simp_all
  from 0 1 2 3 that show thesis by simp
qed

lemma checkIfRectangle_grid:
  assumes len: "length points = 4"
    and ints: "list_all on_grid points"
    and chk: "checkIfRectangle points"
  shows "dx (side_of points 2) = - dx (side_of points 0)
       \<and> dy (side_of points 2) = - dy (side_of points 0)
       \<and> dx (side_of points 3) = - dx (side_of points 1)
       \<and> dy (side_of points 3) = - dy (side_of points 1)
       \<and> dx (side_of points 0) * dx (side_of points 1)
           + dy (side_of points 0) * dy (side_of points 1) = 0"
proof -
  from len obtain p0 p1 p2 p3 where ps: "points = [p0, p1, p2, p3]"
    by (rule length4_cases)
  from ints ps have "px p0 \<in> \<int>" "py p0 \<in> \<int>" "px p1 \<in> \<int>" "py p1 \<in> \<int>"
      "px p2 \<in> \<int>" "py p2 \<in> \<int>" "px p3 \<in> \<int>" "py p3 \<in> \<int>"
    by (simp_all add: on_grid_def)
  then obtain x0 y0 x1 y1 x2 y2 x3 y3 :: int where
    c: "px p0 = of_int x0" "py p0 = of_int y0" "px p1 = of_int x1" "py p1 = of_int y1"
       "px p2 = of_int x2" "py p2 = of_int y2" "px p3 = of_int x3" "py p3 = of_int y3"
    by (auto elim!: Ints_cases)
  define a1 b1 a2 b2 a3 b3 where "a1 = x1 - x0" and "b1 = y1 - y0" and "a2 = x2 - x1"
    and "b2 = y2 - y1" and "a3 = x3 - x2" and "b3 = y3 - y2"
  have a4: "x0 - x3 = - (a1 + a2 + a3)" and b4: "y0 - y3 = - (b1 + b2 + b3)"
    by (simp_all add: a1_def a2_def a3_def b1_def b2_def b3_def)
  have s0: "dx (side_of points 0) = of_int a1" "dy (side_of points 0) = of_int b1"
      "side_length (side_of points 0) = sqrt (of_int (a1\<^sup>2 + b1\<^sup>2))"
    by (simp_all add: side_of_def ps c a1_def b1_def)
  have s1: "dx (side_of points 1) = of_int a2" "dy (side_of points 1) = of_int b2"
      "side_length (side_of points 1) = sqrt (of_int (a2\<^sup>2 + b2\<^sup>2))"
    by (simp_all add: side_of_def ps c a2_def b2_def)
  have s2: "dx (side_of points 2) = of_int a3" "dy (side_of points 2) = of_int b3"
      "side_length (side_of points 2) = sqrt (of_int (a3\<^sup>2 + b3\<^sup>2))"
    by (simp_all add: side_of_def ps c a3_def b3_def)
  have s3: "dx (side_of points 3) = of_int (- (a1 + a2 + a3))"
      "dy (side_of points 3) = of_int (- (b1 + b2 + b3))"
      "side_length (side_of points 3) =
         sqrt (of_int ((- (a1 + a2 + a3))\<^sup>2 + (- (b1 + b2 + b3))\<^sup>2))"
    unfolding a4 [symmetric] b4 [symmetric] by (simp_all add: side_of_def ps c)
  from chk have t:
    "\<bar>of_int a1 * of_int b3 - of_int b1 * of_int a3 :: real\<bar> < 0.1"
    "\<bar>of_int a2 * of_int (- (b1 + b2 + b3)) - of_int b2 * of_int (- (a1 + a2 + a3)) :: real\<bar> < 0.1"
    "\<bar>sqrt (of_int (a1\<^sup>2 + b1\<^sup>2)) - sqrt (of_int (a3\<^sup>2 + b3\<^sup>2))\<bar> < 0.1"
    "\<bar>sqrt (of_int (a2\<^sup>2 + b2\<^sup>2))
       - sqrt (of_int ((- (a1 + a2 + a3))\<^sup>2 + (- (b1 + b2 + b3))\<^sup>2))\<bar> < 0.1"
    "\<bar>of_int a1 * of_int a2 + of_int b1 * of_int b2 :: real\<bar> < 0.1"
    unfolding checkIfRectangle_sides s0 s1 s2 s3 by blast+
  have c13: "a1 * b3 - b1 * a3 = 0"
    using t(1) small_int [of "a1 * b3 - b1 * a3"] by simp
  have c24: "a2 * (- (b1 + b2 + b3)) - b2 * (- (a1 + a2 + a3)) = 0"
    using t(2) small_int [of "a2 * (- (b1 + b2 + b3)) - b2 * (- (a1 + a2 + a3))"]
    by (simp only: of_int_diff of_int_mult)
  have d12: "a1 * a2 + b1 * b2 = 0"
    using t(5) small_int [of "a1 * a2 + b1 * b2"] by simp
  have opp: "a3 = - a1 \<and> b3 = - b1"
    using c13 c24 d12 t(3) t(4) by (rule int_rectangle_core)
  then have "- (a1 + a2 + a3) = - a2" "- (b1 + b2 + b3) = - b2" by simp_all
  with opp d12 show ?thesis
    unfolding s0 s1 s2 s3
    by (simp only: of_int_minus [symmetric] of_int_mult [symmetric] of_int_add [symmetric]
        of_int_0 [where 'a = real, symmetric] of_int_eq_iff)
qed

lemma sqrt25: "sqrt 25 = 5"
  using real_sqrt_abs [of 5] by simp

lemma checkIfRectangle_square: "checkIfRectangle [pt 0 0, pt 5 0, pt 5 5, pt 0 5]"
  by (simp add: checkIfRectangle_sides side_of_def pt_def sqrt25)

lemma checkIfRectangle_slanted: "\<not> checkIfRectangle [pt 0 0, pt 5 0, pt 6 5, pt 0 5]"
  by (simp add: checkIfRectangle_sides side_of_def pt_def)

lemma checkIfRectangle_grid_spec:
  assumes "list_all on_grid points"
  shows "checkIfRectangle points \<longleftrightarrow> rectangle_spec points"
proof
  assume "rectangle_spec points"
  then show "checkIfRectangle points"
    by (simp add: rectangle_spec_def checkIfRectangle_sides sides_parallel_def
        sides_equal_length_def sides_perpendicular_def)
next
  assume chk: "checkIfRectangle points"
  then have len: "length points = 4" by (simp add: checkIfRectangle_sides)
  note g = checkIfRectangle_grid [OF len assms chk]
  have p12: "sides_perpendicular (side_of points 1) (side_of points 2)"
    using g by (simp add: sides_perpendicular_def mult.commute)
  have p23: "sides_perpendicular (side_of points 2) (side_of points 3)"
    using g by (simp add: sides_perpendicular_def)
  have p30: "sides_perpendicular (side_of points 3) (side_of points 0)"
    using g by (simp add: sides_perpendicular_def mult.commute)
  from chk p12 p23 p30 show "rectangle_spec points"
    by (simp add: rectangle_spec_def checkIfRectangle_sides sides_parallel_def
        sides_equal_length_def sides_perpendicular_def)
qed

text \<open>
  Claim C8. \<open>checkIfRectangle\<close> is called on the vertices of a room only, and these have
  integer grid coordinates. On such a list it answers true exactly when the list has 4
  vertices, opposite sides are parallel (cross products within 0.1 of zero) and of equal
  length (within 0.1), and every pair of adjacent sides is perpendicular (dot products
  within 0.1 of zero): this is \<open>rectangle_spec\<close>. The code computes the dot product of
  the first two sides only; on the grid the three other pairs follow from the tests it
  makes. The square (0,0), (5,0), (5,5), (0,5) is a rectangle and the quadrilateral (0,0),
  (5,0), (6,5), (0,5) is not.
\<close>

theorem checkIfRectangle_iff:
  "(checkIfRectangle points \<longleftrightarrow>
      length points = 4
      \<and> sides_parallel (side_of points 0) (side_of points 2)
      \<and> sides_parallel (side_of points 1) (side_of points 3)
      \<and> sides_equal_length (side_of points 0) (side_of points 2)
      \<and> sides_equal_length (side_of points 1) (side_of points 3)
      \<and> sides_perpendicular (side_of points 0) (side_of points 1))
   \<and> (list_all on_grid points \<longrightarrow> (checkIfRectangle points \<longleftrightarrow> rectangle_spec points))
   \<and> checkIfRectangle [pt 0 0, pt 5 0, pt 5 5, pt 0 5]
   \<and> \<not> checkIfRectangle [pt 0 0, pt 5 0, pt 6 5, pt 0 5]"
proof -
  have "checkIfRectangle points \<longleftrightarrow>
      length points = 4
      \<and> sides_parallel (side_of points 0) (side_of points 2)
      \<and> sides_parallel (side_of points 1) (side_of points 3)
      \<and> sides_equal_length (side_of points 0) (side_of points 2)
      \<and> sides_equal_length (side_of points 1) (side_of points 3)
      \<and> sides_perpendicular (side_of points 0) (side_of points 1)"
    by (simp add: checkIfRectangle_sides sides_parallel_def sides_equal_length_def
        sides_perpendicular_def)
  with checkIfRectangle_grid_spec checkIfRectangle_square checkIfRectangle_slanted
  show ?thesis by blast
qed

theorem checkIfRectangle_iff_witness:
  "list_all on_grid [pt 0 0, pt 5 0, pt 5 5, pt 0 5]
   \<and> checkIfRectangle [pt 0 0, pt 5 0, pt 5 5, pt 0 5]
   \<and> rectangle_spec [pt 0 0, pt 5 0, pt 5 5, pt 0 5]"
proof -
  have g: "list_all on_grid [pt 0 0, pt 5 0, pt 5 5, pt 0 5]"
    by (simp add: on_grid_def pt_def)
  with checkIfRectangle_iff [of "[pt 0 0, pt 5 0, pt 5 5, pt 0 5]"] show ?thesis
    by blast
qed

subsection \<open>Properties of straightening\<close>

lemma arctan_tenth: "0 < arctan (1 / 10) \<and> arctan (1 / 10) < pi / 12"
proof -
  have d: "2 * arctan (1 / 10) = arctan (20 / 99)"
    using arctan_double [of "1 / 10"] by (simp add: power2_eq_square)
  have "arctan (1 / 10) + arctan (20 / 99) = arctan (299 / 970)"
    using arctan_add [of "1 / 10" "20 / 99"] by simp
  also have "\<dots> < arctan 1" by (rule arctan_monotone) simp
  finally have "3 * arctan (1 / 10) < pi / 4"
    using d by (simp add: arctan_one)
  then show ?thesis by simp
qed

lemma angleDiff_le:
  "angleDiff A k \<le> t \<longleftrightarrow> \<bar>A - k\<bar> \<le> t \<or> \<bar>A - k - 360\<bar> \<le> t \<or> \<bar>A - k + 360\<bar> \<le> t"
  by (simp add: angleDiff_def min_le_iff_disj)

lemma angleDiff_turn:
  assumes "angleDiff A k \<le> t"
  shows "\<exists>c::int. - 1 \<le> c \<and> c \<le> 1 \<and> - t \<le> A - k + 360 * of_int c \<and> A - k + 360 * of_int c \<le> t"
proof -
  from assms consider "\<bar>A - k\<bar> \<le> t" | "\<bar>A - k - 360\<bar> \<le> t" | "\<bar>A - k + 360\<bar> \<le> t"
    unfolding angleDiff_le by blast
  then show ?thesis
  proof cases
    case 1
    then show ?thesis by (intro exI [of _ 0]) (simp add: abs_le_iff)
  next
    case 2
    then show ?thesis by (intro exI [of _ "- 1"]) (simp add: abs_le_iff)
  next
    case 3
    then show ?thesis by (intro exI [of _ 1]) (simp add: abs_le_iff)
  qed
qed

lemma snapAngles_multiple:
  assumes "k \<in> set snapAngles"
  shows "\<exists>m::int. 0 \<le> m \<and> m \<le> 7 \<and> k = 45 * of_int m"
proof -
  from assms have "k = 45 * of_int \<lfloor>k / 45\<rfloor> \<and> 0 \<le> \<lfloor>k / 45\<rfloor> \<and> \<lfloor>k / 45\<rfloor> \<le> 7"
    unfolding snapAngles_def by (elim disjE | simp)+
  then show ?thesis by blast
qed

lemma snap_unique:
  assumes "k \<in> set snapAngles" "k' \<in> set snapAngles"
    and "angleDiff A k \<le> snapThreshold" "angleDiff A k' \<le> snapThreshold"
  shows "k = k'"
proof -
  from assms(1) obtain m :: int where m: "0 \<le> m" "m \<le> 7" "k = 45 * of_int m"
    using snapAngles_multiple by blast
  from assms(2) obtain m' :: int where m': "0 \<le> m'" "m' \<le> 7" "k' = 45 * of_int m'"
    using snapAngles_multiple by blast
  from assms(3) obtain c :: int where c: "- 1 \<le> c" "c \<le> 1"
      "- 15 \<le> A - k + 360 * of_int c" "A - k + 360 * of_int c \<le> 15"
    unfolding snapThreshold_def using angleDiff_turn by blast
  from assms(4) obtain c' :: int where c': "- 1 \<le> c'" "c' \<le> 1"
      "- 15 \<le> A - k' + 360 * of_int c'" "A - k' + 360 * of_int c' \<le> 15"
    unfolding snapThreshold_def using angleDiff_turn by blast
  define e where "e = 45 * (m' - m) + 360 * (c - c')"
  have "(of_int e :: real) = (A - k + 360 * of_int c) - (A - k' + 360 * of_int c')"
    by (simp add: e_def m m')
  with c(3,4) c'(3,4) have "(of_int (- 30) :: real) \<le> of_int e" "(of_int e :: real) \<le> of_int 30"
    by simp_all
  then have e: "- 30 \<le> e" "e \<le> 30"
    by (simp_all only: of_int_le_iff)
  define q where "q = m' - m + 8 * (c - c')"
  have "e = 45 * q" by (simp add: e_def q_def)
  with e have "q = 0" by linarith
  then have z: "m' - m + 8 * (c - c') = 0" by (simp add: q_def)
  define r where "r = c - c'"
  from z have "8 * r = m - m'" by (simp add: r_def)
  with m(1,2) m'(1,2) have "- 7 \<le> 8 * r" "8 * r \<le> 7" by linarith+
  then have "r = 0" by linarith
  then have "c = c'" by (simp add: r_def)
  with z have "m = m'" by simp
  then show ?thesis by (simp add: m m')
qed

lemma snap_loop_first:
  assumes "k \<in> set ks" "angleDiff A k \<le> snapThreshold"
    and "\<forall>k'\<in>set ks. angleDiff A k' \<le> snapThreshold \<longrightarrow> k' = k"
  shows "snap_loop s d A ks = Some [s, snappedEnd s d k]"
  using assms
proof (induction ks)
  case Nil
  then show ?case by simp
next
  case (Cons a ks)
  show ?case
  proof (cases "angleDiff A a \<le> snapThreshold")
    case True
    with Cons.prems(3) have "a = k" by simp
    with True show ?thesis by simp
  next
    case False
    with Cons.prems(1,2) have "k \<in> set ks" by auto
    moreover from Cons.prems(3)
    have "\<forall>k'\<in>set ks. angleDiff A k' \<le> snapThreshold \<longrightarrow> k' = k" by simp
    ultimately have "snap_loop s d A ks = Some [s, snappedEnd s d k]"
      using Cons.prems(2) by (intro Cons.IH)
    with False show ?thesis by simp
  qed
qed

lemma snap_loop_none:
  assumes "\<forall>k\<in>set ks. snapThreshold < angleDiff A k"
  shows "snap_loop s d A ks = None"
  using assms by (induction ks) simp_all

lemma snappedEnd_distance:
  assumes "0 \<le> d"
  shows "sqrt ((px (snappedEnd s d k) - px s)\<^sup>2 + (py (snappedEnd s d k) - py s)\<^sup>2) = d"
proof -
  have "(d * cos t)\<^sup>2 + (d * sin t)\<^sup>2 = d\<^sup>2" for t
  proof -
    have "(d * cos t)\<^sup>2 + (d * sin t)\<^sup>2 = d\<^sup>2 * ((cos t)\<^sup>2 + (sin t)\<^sup>2)"
      by (simp only: power_mult_distrib distrib_left)
    then show ?thesis by (simp only: sin_cos_squared_add2 mult_1_right)
  qed
  then show ?thesis using assms by (simp add: snappedEnd_def Let_def)
qed

lemma straightDistance_nonneg: "0 \<le> straightDistance_of points"
  by (simp add: straightDistance_of_def)

lemma straighten_snap:
  assumes "2 \<le> length points" "3 \<le> straightDistance_of points"
    and "k \<in> set snapAngles" "angleDiff (angleDegrees_of points) k \<le> snapThreshold"
  shows "straightenLine points =
      [hd points, snappedEnd (hd points) (straightDistance_of points) k]"
proof -
  have u: "\<forall>k'\<in>set snapAngles.
      angleDiff (angleDegrees_of points) k' \<le> snapThreshold \<longrightarrow> k' = k"
    using snap_unique [OF _ assms(3) _ assms(4)] by blast
  have "snap_loop (hd points) (straightDistance_of points) (angleDegrees_of points) snapAngles
      = Some [hd points, snappedEnd (hd points) (straightDistance_of points) k]"
    by (rule snap_loop_first [OF assms(3) assms(4) u])
  then show ?thesis using assms(1,2) by (simp add: straightenLine_def Let_def)
qed

lemma straighten_keep:
  assumes "2 \<le> length points"
    and "straightDistance_of points < 3
         \<or> (\<forall>k\<in>set snapAngles. snapThreshold < angleDiff (angleDegrees_of points) k)"
  shows "straightenLine points = points"
proof (cases "straightDistance_of points < 3")
  case True
  then show ?thesis by (simp add: straightenLine_def Let_def)
next
  case False
  with assms(2) have "\<forall>k\<in>set snapAngles. snapThreshold < angleDiff (angleDegrees_of points) k"
    by blast
  then have "snap_loop (hd points) (straightDistance_of points) (angleDegrees_of points)
      snapAngles = None"
    by (rule snap_loop_none)
  then show ?thesis by (simp add: straightenLine_def Let_def)
qed

lemma js_rem_small:
  assumes "0 \<le> t" "t < 360"
  shows "js_rem (t + 360) 360 = t"
proof -
  have "\<lfloor>(t + 360) / 360\<rfloor> = 1"
    using assms by (intro floor_unique) simp_all
  then show ?thesis using assms by (simp add: js_rem_def js_trunc_def)
qed

lemma example_angle:
  "angleDegrees_of [pt 0 0, pt 10 1] = arctan (1 / 10) * 180 / pi"
proof -
  have "0 \<le> arctan (1 / 10) * 180 / pi" using arctan_tenth by simp
  moreover have "arctan (1 / 10) * 180 / pi < 360"
  proof -
    have "arctan (1 / 10) * 180 < pi / 12 * 180" using arctan_tenth by simp
    also have "\<dots> < 360 * pi" using pi_gt_zero by simp
    finally show ?thesis by (simp add: field_simps)
  qed
  ultimately show ?thesis
    by (simp add: angleDegrees_of_def pt_def Math_atan2_def Let_def js_rem_small)
qed

lemma example_straighten:
  "straightenLine [pt 0 0, pt 10 1] = [pt 0 0, pt (sqrt 101) 0]"
proof -
  let ?ps = "[pt 0 0, pt 10 1]"
  have d: "straightDistance_of ?ps = sqrt 101"
    by (simp add: straightDistance_of_def pt_def)
  have "sqrt 9 \<le> sqrt 101" by (simp only: real_sqrt_le_iff)
  moreover have "sqrt 9 = 3" using real_sqrt_abs [of 3] by simp
  ultimately have d3: "3 \<le> straightDistance_of ?ps" using d by simp
  have "arctan (1 / 10) * 180 / pi \<le> 15"
  proof -
    have "arctan (1 / 10) * 180 \<le> pi / 12 * 180" using arctan_tenth by simp
    then show ?thesis using pi_gt_zero by (simp add: field_simps)
  qed
  moreover have "0 \<le> arctan (1 / 10) * 180 / pi" using arctan_tenth by simp
  ultimately have a: "angleDiff (angleDegrees_of ?ps) 0 \<le> snapThreshold"
    unfolding example_angle angleDiff_le snapThreshold_def by simp
  have "straightenLine ?ps = [hd ?ps, snappedEnd (hd ?ps) (straightDistance_of ?ps) 0]"
    using d3 a by (intro straighten_snap) (simp_all add: snapAngles_def)
  then show ?thesis unfolding d by (simp add: snappedEnd_def pt_def)
qed

lemma boundary_straighten:
  "straightDistance_of [pt 0 0, pt 1 1, pt 3 0] = 3
   \<and> straightenLine [pt 0 0, pt 1 1, pt 3 0] = [pt 0 0, pt 3 0]"
proof -
  let ?ps = "[pt 0 0, pt 1 1, pt 3 0]"
  have "sqrt 9 = 3" using real_sqrt_abs [of 3] by simp
  then have d: "straightDistance_of ?ps = 3"
    by (simp add: straightDistance_of_def pt_def)
  have A: "angleDegrees_of ?ps = 0"
    using js_rem_small [of 0] by (simp add: angleDegrees_of_def pt_def Math_atan2_def)
  have "straightenLine ?ps = [hd ?ps, snappedEnd (hd ?ps) (straightDistance_of ?ps) 0]"
    by (intro straighten_snap) (simp_all add: d A snapAngles_def angleDiff_le snapThreshold_def)
  then show ?thesis unfolding d by (simp add: snappedEnd_def pt_def)
qed

text \<open>
  \<open>angleDegrees_of\<close> is the direction of the stroke in degrees, in \<open>[0, 360)\<close>.
\<close>

lemma arctan_quotient:
  assumes "a \<noteq> 0"
  shows "cos (arctan (b / a)) = \<bar>a\<bar> / sqrt (a\<^sup>2 + b\<^sup>2)"
    and "sin (arctan (b / a)) = (b / a) * (\<bar>a\<bar> / sqrt (a\<^sup>2 + b\<^sup>2))"
proof -
  have "1 + (b / a)\<^sup>2 = (a\<^sup>2 + b\<^sup>2) / a\<^sup>2"
    using assms by (simp add: field_simps power2_eq_square)
  then have "sqrt (1 + (b / a)\<^sup>2) = sqrt (a\<^sup>2 + b\<^sup>2) / \<bar>a\<bar>"
    by (simp add: real_sqrt_divide)
  then show "cos (arctan (b / a)) = \<bar>a\<bar> / sqrt (a\<^sup>2 + b\<^sup>2)"
    and "sin (arctan (b / a)) = (b / a) * (\<bar>a\<bar> / sqrt (a\<^sup>2 + b\<^sup>2))"
    by (simp_all add: cos_arctan sin_arctan)
qed

lemma atan2_direction:
  assumes "a \<noteq> 0 \<or> b \<noteq> 0"
  shows "cos (Math_atan2 b a) = a / sqrt (a\<^sup>2 + b\<^sup>2)"
    and "sin (Math_atan2 b a) = b / sqrt (a\<^sup>2 + b\<^sup>2)"
proof -
  consider "0 < a" | "a < 0" | "a = 0" "0 < b" | "a = 0" "b < 0"
    using assms by linarith
  then have "cos (Math_atan2 b a) = a / sqrt (a\<^sup>2 + b\<^sup>2)
      \<and> sin (Math_atan2 b a) = b / sqrt (a\<^sup>2 + b\<^sup>2)"
  proof cases
    case 1
    then show ?thesis
      using arctan_quotient [of a b] by (simp add: Math_atan2_def)
  next
    case 2
    then have "Math_atan2 b a = arctan (b / a) + pi \<or> Math_atan2 b a = arctan (b / a) - pi"
      by (simp add: Math_atan2_def)
    then have "cos (Math_atan2 b a) = - cos (arctan (b / a))
        \<and> sin (Math_atan2 b a) = - sin (arctan (b / a))"
      by (auto simp: cos_diff sin_diff)
    with 2 show ?thesis
      using arctan_quotient [of a b] by simp
  next
    case 3
    then show ?thesis by (simp add: Math_atan2_def)
  next
    case 4
    then show ?thesis by (simp add: Math_atan2_def)
  qed
  then show "cos (Math_atan2 b a) = a / sqrt (a\<^sup>2 + b\<^sup>2)"
    and "sin (Math_atan2 b a) = b / sqrt (a\<^sup>2 + b\<^sup>2)"
    by simp_all
qed

lemma atan2_range: "- pi < Math_atan2 b a \<and> Math_atan2 b a \<le> pi"
proof -
  have "- (pi / 2) < arctan (b / a)" "arctan (b / a) < pi / 2"
    using arctan_bounded [of "b / a"] by simp_all
  moreover have "a < 0 \<Longrightarrow> 0 \<le> b \<Longrightarrow> arctan (b / a) \<le> 0"
    by (simp add: arctan_le_zero_iff divide_nonneg_neg)
  moreover have "a < 0 \<Longrightarrow> b < 0 \<Longrightarrow> 0 < arctan (b / a)"
    by (simp add: divide_neg_neg)
  ultimately show ?thesis
    using pi_gt_zero by (auto simp: Math_atan2_def)
qed

lemma degrees_normalised:
  assumes "- pi < t" "t \<le> pi"
  shows "js_rem (t * 180 / pi + 360) 360 = (if t < 0 then t * 180 / pi + 360 else t * 180 / pi)"
proof -
  define u where "u = t * 180 / pi"
  have u: "- 180 < u" "u \<le> 180" "u < 0 \<longleftrightarrow> t < 0"
    using assms pi_gt_zero by (simp_all add: u_def field_simps)
  have "0 \<le> (u + 360) / 360" using u by simp
  moreover have "\<lfloor>(u + 360) / 360\<rfloor> = (if u < 0 then 0 else 1)"
    using u by (auto intro!: floor_unique)
  ultimately have "js_rem (u + 360) 360 = (if u < 0 then u + 360 else u)"
    by (simp add: js_rem_def js_trunc_def)
  then show ?thesis using u(3) by (simp add: u_def)
qed

lemma angleDegrees_direction:
  assumes "0 < straightDistance_of points"
  shows "0 \<le> angleDegrees_of points \<and> angleDegrees_of points < 360
       \<and> px (last points) - px (hd points)
           = straightDistance_of points * cos (angleDegrees_of points * pi / 180)
       \<and> py (last points) - py (hd points)
           = straightDistance_of points * sin (angleDegrees_of points * pi / 180)"
proof -
  define a b where "a = px (last points) - px (hd points)"
    and "b = py (last points) - py (hd points)"
  define d where "d = sqrt (a\<^sup>2 + b\<^sup>2)"
  define t where "t = Math_atan2 b a"
  have d: "straightDistance_of points = d" "0 < d"
    using assms by (simp_all add: straightDistance_of_def d_def a_def b_def)
  then have nz: "a \<noteq> 0 \<or> b \<noteq> 0" by (auto simp: d_def)
  have r: "- pi < t" "t \<le> pi" using atan2_range [of b a] by (simp_all add: t_def)
  have A: "angleDegrees_of points = (if t < 0 then t * 180 / pi + 360 else t * 180 / pi)"
    using degrees_normalised [OF r]
    by (simp add: angleDegrees_of_def Let_def t_def a_def b_def)
  have range: "0 \<le> angleDegrees_of points \<and> angleDegrees_of points < 360"
  proof (cases "t < 0")
    case True
    have "- 180 < t * 180 / pi" using r(1) pi_gt_zero by (simp add: field_simps)
    moreover have "t * 180 / pi < 0" using True pi_gt_zero by (simp add: field_simps)
    ultimately show ?thesis using True by (simp add: A)
  next
    case False
    have "t * 180 / pi \<le> 180" using r(2) pi_gt_zero by (simp add: field_simps)
    moreover have "0 \<le> t * 180 / pi" using False pi_gt_zero by simp
    ultimately show ?thesis using False by (simp add: A)
  qed
  have "angleDegrees_of points * pi / 180 = t \<or> angleDegrees_of points * pi / 180 = t + 2 * pi"
    using pi_gt_zero by (simp add: A field_simps)
  then have cs: "cos (angleDegrees_of points * pi / 180) = cos t
      \<and> sin (angleDegrees_of points * pi / 180) = sin t"
  proof
    assume e: "angleDegrees_of points * pi / 180 = t"
    show ?thesis unfolding e by (rule conjI) (rule refl)+
  next
    assume e: "angleDegrees_of points * pi / 180 = t + 2 * pi"
    show ?thesis unfolding e by (simp only: cos_periodic sin_periodic)
  qed
  have "d * cos t = a" "d * sin t = b"
    using atan2_direction [OF nz] d(2) by (simp_all add: t_def d_def [symmetric])
  with range cs d(1) show ?thesis by (simp add: a_def b_def)
qed

text \<open>
  Claim C3, as the code has it. For a stroke of at least 2 points: when the distance from
  its first to its last point is at least 3 grid units (the code keeps the stroke only
  below 3, so a distance of exactly 3 is straightened) and the direction angle
  \<open>angleDegrees_of\<close> from the first to the last point is within 15 degrees of one of the
  snap angles 0, 45, ..., 315, \<open>straightenLine\<close> returns exactly the first point and \<open>snappedEnd\<close>, the point in the snapped direction at the
  original straight-line distance from the first point; when the distance is below 3 or no
  snap angle is within 15 degrees, the stroke is returned unchanged. The stroke from (0,0)
  to (10,1) becomes \<open>[(0,0), (\<surd>101, 0)]\<close>: horizontal, of the original length.
\<close>

theorem straightenLine_snaps:
  assumes "2 \<le> length points"
  shows "(3 \<le> straightDistance_of points \<and> k \<in> set snapAngles
            \<and> angleDiff (angleDegrees_of points) k \<le> snapThreshold
          \<longrightarrow> straightenLine points
                = [hd points, snappedEnd (hd points) (straightDistance_of points) k]
              \<and> px (snappedEnd (hd points) (straightDistance_of points) k)
                = px (hd points) + straightDistance_of points * cos (k * pi / 180)
              \<and> py (snappedEnd (hd points) (straightDistance_of points) k)
                = py (hd points) + straightDistance_of points * sin (k * pi / 180)
              \<and> sqrt ((px (snappedEnd (hd points) (straightDistance_of points) k)
                         - px (hd points))\<^sup>2
                       + (py (snappedEnd (hd points) (straightDistance_of points) k)
                         - py (hd points))\<^sup>2)
                = straightDistance_of points)
       \<and> (straightDistance_of points < 3
            \<or> (\<forall>k\<in>set snapAngles. snapThreshold < angleDiff (angleDegrees_of points) k)
          \<longrightarrow> straightenLine points = points)
       \<and> (3 \<le> straightDistance_of points
          \<longrightarrow> 0 \<le> angleDegrees_of points \<and> angleDegrees_of points < 360
              \<and> px (last points) - px (hd points)
                  = straightDistance_of points * cos (angleDegrees_of points * pi / 180)
              \<and> py (last points) - py (hd points)
                  = straightDistance_of points * sin (angleDegrees_of points * pi / 180))
       \<and> set snapAngles = {0, 45, 90, 135, 180, 225, 270, 315} \<and> snapThreshold = 15
       \<and> straightenLine [pt 0 0, pt 10 1] = [pt 0 0, pt (sqrt 101) 0]"
proof -
  have "set snapAngles = {0, 45, 90, 135, 180, 225, 270, 315}"
    by (simp add: snapAngles_def)
  moreover have "px (snappedEnd s d k) = px s + d * cos (k * pi / 180)
      \<and> py (snappedEnd s d k) = py s + d * sin (k * pi / 180)" for s d
    by (simp add: snappedEnd_def Let_def)
  moreover have "0 \<le> angleDegrees_of points \<and> angleDegrees_of points < 360
      \<and> px (last points) - px (hd points)
          = straightDistance_of points * cos (angleDegrees_of points * pi / 180)
      \<and> py (last points) - py (hd points)
          = straightDistance_of points * sin (angleDegrees_of points * pi / 180)"
    if "3 \<le> straightDistance_of points"
    using that by (intro angleDegrees_direction) simp
  ultimately show ?thesis
    using straighten_snap [OF assms, of k] straighten_keep [OF assms]
      snappedEnd_distance [OF straightDistance_nonneg, of "hd points" points k]
      example_straighten
    by (simp add: snapThreshold_def)
qed

theorem straightenLine_snaps_witness:
  "2 \<le> length [pt 0 0, pt 10 1]
   \<and> 3 \<le> straightDistance_of [pt 0 0, pt 10 1]
   \<and> angleDiff (angleDegrees_of [pt 0 0, pt 10 1]) 0 \<le> snapThreshold
   \<and> straightenLine [pt 0 0, pt 10 1] = [pt 0 0, pt (sqrt 101) 0]
   \<and> straightDistance_of [pt 0 0, pt 1 0] < 3
   \<and> straightenLine [pt 0 0, pt 1 0] = [pt 0 0, pt 1 0]"
proof -
  have d: "straightDistance_of [pt 0 0, pt 10 1] = sqrt 101"
    by (simp add: straightDistance_of_def pt_def)
  have "sqrt 9 \<le> sqrt 101" by (simp only: real_sqrt_le_iff)
  moreover have "sqrt 9 = 3" using real_sqrt_abs [of 3] by simp
  ultimately have d3: "3 \<le> straightDistance_of [pt 0 0, pt 10 1]" using d by simp
  have t: "arctan (1 / 10) * 180 / pi \<le> 15 \<and> 0 \<le> arctan (1 / 10) * 180 / pi"
  proof -
    have "arctan (1 / 10) * 180 \<le> pi / 12 * 180" using arctan_tenth by simp
    then show ?thesis using pi_gt_zero arctan_tenth by (simp add: field_simps)
  qed
  then have a: "angleDiff (angleDegrees_of [pt 0 0, pt 10 1]) 0 \<le> snapThreshold"
    unfolding example_angle angleDiff_le snapThreshold_def by simp
  have s: "straightDistance_of [pt 0 0, pt 1 0] < 3"
    by (simp add: straightDistance_of_def pt_def)
  have "straightenLine [pt 0 0, pt 1 0] = [pt 0 0, pt 1 0]"
    using straightenLine_snaps [of "[pt 0 0, pt 1 0]" 0] s by simp
  with straightenLine_snaps [of "[pt 0 0, pt 10 1]" 0] d3 a s show ?thesis
    by simp
qed

text \<open>
  The claim as worded, with a minimum the distance has to exceed, fails on a stroke whose
  ends are exactly 3 apart: the stroke (0,0), (1,1), (3,0) is replaced by its two ends.
\<close>

theorem straightenLine_boundary_counterexample:
  "\<not> 3 < straightDistance_of [pt 0 0, pt 1 1, pt 3 0]
   \<and> straightenLine [pt 0 0, pt 1 1, pt 3 0] = [pt 0 0, pt 3 0]
   \<and> straightenLine [pt 0 0, pt 1 1, pt 3 0] \<noteq> [pt 0 0, pt 1 1, pt 3 0]"
  using boundary_straighten by simp

section \<open>The scene and the drawing session\<close>

text \<open>
  The interfaces of the component. An id is \<^verbatim>\<open>Date.now().toString()\<close>; it is modelled as
  the millisecond count itself, the decimal rendering being one-to-one. The optional field
  \<^verbatim>\<open>selected\<close> of a room is an \<open>option\<close>. Field names carry the name of their interface
  as a prefix. A text the user types is the list of its UTF-16 code units, as a JavaScript
  string is; the colours and the label of a room, which are never typed, are \<open>string\<close>s.
\<close>

type_synonym js_string = "nat list"

record Room =
  room_id :: int
  room_points :: "Point list"
  room_label :: string
  room_area :: real
  room_color :: string
  room_selected :: "bool option"

record FreehandPath =
  path_id :: int
  path_points :: "Point list"
  path_color :: string
  path_width :: real

record TextLabel =
  label_id :: int
  label_position :: Point
  label_text :: js_string
  label_color :: string
  label_fontSize :: real

datatype CanvasAction =
    RoomAction Room
  | FreehandAction FreehandPath
  | TextAction TextLabel
  | DeleteAction "int list" "string list"

datatype Tool = Select | RoomTool | LabelTool | EraseTool | FreehandTool

record TextInput =
  input_position :: Point
  input_value :: js_string
  input_isEditing :: bool
  input_editingId :: "int option"

record DraggingText =
  dragging_id :: int
  dragging_offset :: Point

text \<open>
  The props \<^verbatim>\<open>tool\<close>, \<^verbatim>\<open>zoom\<close> and \<^verbatim>\<open>selectedColor\<close> and the \<^verbatim>\<open>useState\<close> slots of the
  component that the handlers read or write. \<^verbatim>\<open>currentTool\<close> starts as the empty string,
  which like \<^verbatim>\<open>null\<close> is no tool: \<open>None\<close>. The slots that only feed the drawing
  (\<^verbatim>\<open>mousePos\<close>, \<^verbatim>\<open>showTooltip\<close>, \<^verbatim>\<open>canPanUp\<close>, \<^verbatim>\<open>canPanLeft\<close>, \<^verbatim>\<open>isMobile\<close>,
  \<^verbatim>\<open>mobileSliderValue\<close>) are left out.

  The component is rendered again after every event, and a handler made by
  \<^verbatim>\<open>useCallback\<close> is made anew in a render in which one of the values of its dependency
  list has changed; until then it reads the values of the render that made it. The
  dependency lists of the handlers name every value the handler reads, with one exception:
  \<^verbatim>\<open>handlePointerDown\<close> reads \<^verbatim>\<open>isPinching\<close>, which its list does not name. So every
  handler is a function of the state of the latest render, except that
  \<^verbatim>\<open>handlePointerDown\<close> sees the \<^verbatim>\<open>isPinching\<close> of the render that made it: this is the
  field \<open>downPinching\<close>, which \<open>step\<close> below maintains.
\<close>

record Canvas =
  tool :: "Tool option"
  zoom :: real
  selectedColor :: string
  rooms :: "Room list"
  freehandPaths :: "FreehandPath list"
  textLabels :: "TextLabel list"
  currentRoom :: "Point list"
  currentPath :: "Point list"
  viewOffset :: Point
  isDrawing :: bool
  actionHistory :: "CanvasAction list"
  textInput :: "TextInput option"
  isDraggingText :: "DraggingText option"
  lastClickTime :: int
  lastClickedText :: "int option"
  currentTool :: "Tool option"
  isPinching :: bool
  lastPinchDistance :: real
  lastPinchZoom :: real
  isRoomClosed :: bool
  downPinching :: bool

definition initial :: Canvas where
  "initial =
     \<lparr>tool = Some FreehandTool, zoom = 100, selectedColor = ''#000000'',
      rooms = [], freehandPaths = [], textLabels = [], currentRoom = [], currentPath = [],
      viewOffset = \<lparr>px = 50, py = 50\<rparr>, isDrawing = False, actionHistory = [],
      textInput = None, isDraggingText = None, lastClickTime = 0, lastClickedText = None,
      currentTool = None, isPinching = False, lastPinchDistance = 0, lastPinchZoom = 100,
      isRoomClosed = False, downPinching = False\<rparr>"

subsection \<open>Hit testing\<close>

text \<open>
  \<^verbatim>\<open>Math.sqrt(Math.pow(a.x - b.x, 2) + Math.pow(a.y - b.y, 2))\<close>, which the handlers write
  out at each use.
\<close>

definition distance :: "Point \<Rightarrow> Point \<Rightarrow> real" where
  "distance a b = sqrt ((px a - px b)\<^sup>2 + (py a - py b)\<^sup>2)"

text \<open>
  The loop \<^verbatim>\<open>for (let i = 0, j = screenPoints.length - 1; i < screenPoints.length; j = i++)\<close>
  of \<^verbatim>\<open>isPointInRoom\<close>. The division is only evaluated when the two \<open>y\<close> differ.
\<close>

function crossing_loop :: "Point list \<Rightarrow> Point \<Rightarrow> nat \<Rightarrow> nat \<Rightarrow> bool \<Rightarrow> bool" where
  "crossing_loop screenPoints point i j inside =
     (if i < length screenPoints
      then crossing_loop screenPoints point (i + 1) i
             (if ((py (screenPoints ! i) > py point) \<noteq> (py (screenPoints ! j) > py point))
                 \<and> px point <
                     (px (screenPoints ! j) - px (screenPoints ! i))
                       * (py point - py (screenPoints ! i))
                       / (py (screenPoints ! j) - py (screenPoints ! i))
                     + px (screenPoints ! i)
              then \<not> inside else inside)
      else inside)"
  by pat_completeness auto
termination
  by (relation "measure (\<lambda>(screenPoints, point, i, j, inside). length screenPoints - i)") auto

declare crossing_loop.simps [simp del]

definition isPointInRoom :: "real \<Rightarrow> Point \<Rightarrow> Point \<Rightarrow> Room \<Rightarrow> bool" where
  "isPointInRoom z off point room =
     (let screenPoints = map (gridToScreen z off) (room_points room)
      in crossing_loop screenPoints point 0 (length screenPoints - 1) False)"

text \<open>
  The value \<^verbatim>\<open>{type, id, element}\<close> that \<^verbatim>\<open>findElementAtPoint\<close> returns; \<^verbatim>\<open>null\<close> is
  \<open>None\<close>.
\<close>

datatype Hit = TextHit TextLabel | RoomHit Room | FreehandHit FreehandPath

fun hit_id :: "Hit \<Rightarrow> int" where
  "hit_id (TextHit l) = label_id l"
| "hit_id (RoomHit r) = room_id r"
| "hit_id (FreehandHit f) = path_id f"

text \<open>The three searches of \<^verbatim>\<open>findElementAtPoint\<close>, each returning at its first match.\<close>

fun label_loop :: "real \<Rightarrow> Point \<Rightarrow> Point \<Rightarrow> TextLabel list \<Rightarrow> Hit option" where
  "label_loop z off point [] = None"
| "label_loop z off point (l # ls) =
     (if distance point (gridToScreen z off (label_position l)) < 30
      then Some (TextHit l)
      else label_loop z off point ls)"

fun room_loop :: "real \<Rightarrow> Point \<Rightarrow> Point \<Rightarrow> Room list \<Rightarrow> Hit option" where
  "room_loop z off point [] = None"
| "room_loop z off point (r # rs) =
     (if isPointInRoom z off point r then Some (RoomHit r) else room_loop z off point rs)"

fun pathPoint_loop :: "real \<Rightarrow> Point \<Rightarrow> Point \<Rightarrow> Point list \<Rightarrow> bool" where
  "pathPoint_loop z off point [] = False"
| "pathPoint_loop z off point (pathPoint # rest) =
     (if distance point (gridToScreen z off pathPoint) < 10 then True
      else pathPoint_loop z off point rest)"

fun path_loop :: "real \<Rightarrow> Point \<Rightarrow> Point \<Rightarrow> FreehandPath list \<Rightarrow> Hit option" where
  "path_loop z off point [] = None"
| "path_loop z off point (f # fs) =
     (if pathPoint_loop z off point (path_points f) then Some (FreehandHit f)
      else path_loop z off point fs)"

definition findElementAtPoint :: "Canvas \<Rightarrow> Point \<Rightarrow> Hit option" where
  "findElementAtPoint s point =
     (case label_loop (zoom s) (viewOffset s) point (textLabels s) of
        Some h \<Rightarrow> Some h
      | None \<Rightarrow>
          (case room_loop (zoom s) (viewOffset s) point (rooms s) of
             Some h \<Rightarrow> Some h
           | None \<Rightarrow> path_loop (zoom s) (viewOffset s) point (freehandPaths s)))"

subsection \<open>Pointer events\<close>

text \<open>
  What the handlers read from a mouse or touch event: \<open>ev_touches\<close> is \<open>None\<close> for a mouse
  event and the number of entries of \<^verbatim>\<open>e.touches\<close> for a touch event, \<open>ev_point\<close> is the
  result of \<^verbatim>\<open>getEventPoint(e)\<close> and \<open>ev_touchDistance\<close> that of
  \<^verbatim>\<open>getTouchDistance(e.touches)\<close>. The result of \<^verbatim>\<open>Date.now()\<close> is the argument \<open>now\<close> of a
  handler. Both tests of \<^verbatim>\<open>isPinching\<close> in \<^verbatim>\<open>handlePointerDown\<close> read the value the
  handler was made with, \<open>downPinching\<close>; \<^verbatim>\<open>zoom\<close> and every other value it reads are in
  its dependency list and so are those of the latest render.
\<close>

record PointerEvent =
  ev_touches :: "nat option"
  ev_point :: Point
  ev_touchDistance :: real

definition eraseElement :: "Canvas \<Rightarrow> Hit option \<Rightarrow> Canvas" where
  "eraseElement s element =
     (case element of
        None \<Rightarrow> s
      | Some (RoomHit r) \<Rightarrow>
          s\<lparr>rooms := filter (\<lambda>room. room_id room \<noteq> room_id r) (rooms s)\<rparr>
      | Some (FreehandHit f) \<Rightarrow>
          s\<lparr>freehandPaths := filter (\<lambda>path. path_id path \<noteq> path_id f) (freehandPaths s)\<rparr>
      | Some (TextHit l) \<Rightarrow>
          s\<lparr>textLabels := filter (\<lambda>label. label_id label \<noteq> label_id l) (textLabels s)\<rparr>)"

definition handlePointerDown :: "Canvas \<Rightarrow> PointerEvent \<Rightarrow> int \<Rightarrow> Canvas" where
  "handlePointerDown s e now =
     (if ev_touches e = Some 2
      then s\<lparr>isPinching := True, lastPinchDistance := ev_touchDistance e,
             lastPinchZoom := zoom s\<rparr>
      else if downPinching s then s
      else
        (let point = ev_point e;
             gridPos = screenToGrid (zoom s) (viewOffset s) point;
             currentTime = now;
             clickedElement = findElementAtPoint s point
         in case clickedElement of
              Some (TextHit textLabel) \<Rightarrow>
                (let isDoubleClick = (currentTime - lastClickTime s < 300
                       \<and> lastClickedText s = Some (label_id textLabel))
                 in if isDoubleClick
                    then s\<lparr>textInput := Some \<lparr>input_position = label_position textLabel,
                                 input_value = label_text textLabel, input_isEditing = True,
                                 input_editingId = Some (label_id textLabel)\<rparr>,
                           lastClickTime := 0, lastClickedText := None\<rparr>
                    else
                      (let screenPos = gridToScreen (zoom s) (viewOffset s)
                             (label_position textLabel)
                       in s\<lparr>isDraggingText := Some \<lparr>dragging_id = label_id textLabel,
                                 dragging_offset = \<lparr>px = px point - px screenPos,
                                                     py = py point - py screenPos\<rparr>\<rparr>,
                             lastClickTime := currentTime,
                             lastClickedText := Some (label_id textLabel)\<rparr>))
            | _ \<Rightarrow>
                (let s1 = s\<lparr>lastClickTime := currentTime, lastClickedText := None\<rparr>
                 in if tool s = Some RoomTool
                    then
                      (if length (currentRoom s) \<ge> 3
                          \<and> distance point
                                (gridToScreen (zoom s) (viewOffset s) (currentRoom s ! 0)) < 30
                       then s1\<lparr>isRoomClosed := True\<rparr>
                       else s1\<lparr>currentRoom := currentRoom s @ [gridPos]\<rparr>)
                    else if tool s = Some FreehandTool \<and> \<not> downPinching s
                    then s1\<lparr>isDrawing := True, currentPath := [gridPos]\<rparr>
                    else if tool s = Some LabelTool
                    then s1\<lparr>textInput := Some \<lparr>input_position = gridPos, input_value = [],
                                  input_isEditing = True, input_editingId = None\<rparr>\<rparr>
                    else if tool s = Some EraseTool
                    then eraseElement s1 (findElementAtPoint s point)
                    else s1)))"

text \<open>
  \<^verbatim>\<open>onZoomChange\<close> is the parent's \<^verbatim>\<open>handleZoomChange\<close>, which stores
  \<^verbatim>\<open>Math.max(MIN_ZOOM, Math.min(newZoom, MAX_ZOOM * 2.5))\<close> in the prop \<^verbatim>\<open>zoom\<close>.
\<close>

definition MIN_ZOOM :: real where
  "MIN_ZOOM = 50"

definition MAX_ZOOM :: real where
  "MAX_ZOOM = 200"

definition handleZoomChange :: "Canvas \<Rightarrow> real \<Rightarrow> Canvas" where
  "handleZoomChange s newZoom = s\<lparr>zoom := max MIN_ZOOM (min newZoom (MAX_ZOOM * 2.5))\<rparr>"

definition handleZoomIn :: "Canvas \<Rightarrow> Canvas" where
  "handleZoomIn s = s\<lparr>zoom := min (zoom s + 10) MAX_ZOOM\<rparr>"

definition handleZoomOut :: "Canvas \<Rightarrow> Canvas" where
  "handleZoomOut s = s\<lparr>zoom := max (zoom s - 10) MIN_ZOOM\<rparr>"

definition handlePointerMove :: "Canvas \<Rightarrow> PointerEvent \<Rightarrow> Canvas" where
  "handlePointerMove s e =
     (case isDraggingText s of
        Some dragging \<Rightarrow>
          (let point = ev_point e;
               newGridPos = screenToGrid (zoom s) (viewOffset s)
                 \<lparr>px = px point - px (dragging_offset dragging),
                  py = py point - py (dragging_offset dragging)\<rparr>
           in s\<lparr>textLabels :=
                  map (\<lambda>label. if label_id label = dragging_id dragging
                                then label\<lparr>label_position := newGridPos\<rparr> else label)
                    (textLabels s)\<rparr>)
      | None \<Rightarrow>
          if ev_touches e = Some 2 \<and> isPinching s
          then
            (if lastPinchDistance s > 0
             then
               (let scale = ev_touchDistance e / lastPinchDistance s;
                    newZoom = max 50 (min 500 (lastPinchZoom s * scale))
                in if \<bar>newZoom - zoom s\<bar> > 5
                   then (handleZoomChange s newZoom)\<lparr>lastPinchZoom := newZoom\<rparr>
                   else s)
             else s)
          else
            (let point = ev_point e;
                 gridPos = screenToGrid (zoom s) (viewOffset s) point
             in if tool s = Some FreehandTool \<and> isDrawing s \<and> \<not> isPinching s
                then s\<lparr>currentPath :=
                       (if length (currentPath s) > 0
                           \<and> distance point
                                 (gridToScreen (zoom s) (viewOffset s) (last (currentPath s)))
                               < 5
                        then currentPath s
                        else currentPath s @ [gridPos])\<rparr>
                else s))"

definition handlePointerUp :: "Canvas \<Rightarrow> int \<Rightarrow> Canvas" where
  "handlePointerUp s now =
     (if isDraggingText s \<noteq> None then s\<lparr>isDraggingText := None\<rparr>
      else if isPinching s then s\<lparr>isPinching := False, lastPinchDistance := 0\<rparr>
      else if tool s = Some FreehandTool \<and> isDrawing s \<and> length (currentPath s) > 1
      then
        (let straightenedPath = straightenLine (currentPath s);
             newPath = \<lparr>path_id = now, path_points = straightenedPath,
                        path_color = selectedColor s, path_width = 3\<rparr>
         in s\<lparr>freehandPaths := freehandPaths s @ [newPath], currentPath := [],
               actionHistory := actionHistory s @ [FreehandAction newPath],
               isDrawing := False\<rparr>)
      else s\<lparr>isDrawing := False\<rparr>)"

text \<open>The handlers \<^verbatim>\<open>onMouseLeave\<close> and \<^verbatim>\<open>onTouchCancel\<close> of the canvas element.\<close>

definition handlePointerLeave :: "Canvas \<Rightarrow> Canvas" where
  "handlePointerLeave s = s\<lparr>isDrawing := False\<rparr>"

subsection \<open>Committing, undoing, clearing\<close>

definition handleRoomComplete :: "Canvas \<Rightarrow> int \<Rightarrow> Canvas" where
  "handleRoomComplete s now =
     (if length (currentRoom s) < 3 \<or> \<not> isRoomClosed s then s
      else
        (let area = calculateArea (currentRoom s);
             newRoom = \<lparr>room_id = now, room_points = currentRoom s, room_label = [],
                        room_area = area, room_color = selectedColor s,
                        room_selected = None\<rparr>;
             newRooms = rooms s @ [newRoom]
         in s\<lparr>rooms := newRooms, currentRoom := [], isRoomClosed := False,
               actionHistory := actionHistory s @ [RoomAction newRoom]\<rparr>))"

definition handleUndo :: "Canvas \<Rightarrow> Canvas" where
  "handleUndo s =
     (if length (actionHistory s) = 0 then s
      else
        (let lastAction = actionHistory s ! (length (actionHistory s) - 1);
             s1 = (case lastAction of
                     RoomAction data \<Rightarrow>
                       s\<lparr>rooms := filter (\<lambda>room. room_id room \<noteq> room_id data) (rooms s)\<rparr>
                   | FreehandAction data \<Rightarrow>
                       s\<lparr>freehandPaths :=
                           filter (\<lambda>path. path_id path \<noteq> path_id data) (freehandPaths s)\<rparr>
                   | TextAction data \<Rightarrow>
                       s\<lparr>textLabels :=
                           filter (\<lambda>label. label_id label \<noteq> label_id data) (textLabels s)\<rparr>
                   | DeleteAction ids types \<Rightarrow> s)
         in s1\<lparr>actionHistory := butlast (actionHistory s)\<rparr>))"

definition handleClear :: "Canvas \<Rightarrow> Canvas" where
  "handleClear s =
     s\<lparr>rooms := [], freehandPaths := [], textLabels := [], currentRoom := [],
       currentPath := [], actionHistory := [], textInput := None, isRoomClosed := False\<rparr>"

subsection \<open>Text entry, panning, tool change\<close>

text \<open>
  \<^verbatim>\<open>value.trim()\<close> is empty when every code unit is white space or a line terminator of
  ECMAScript: tab, line feed, vertical tab, form feed, carriage return, space, no-break
  space (U+00A0), U+1680, U+2000 to U+200A, the line and paragraph separators U+2028 and
  U+2029, U+202F, U+205F, U+3000 and the byte order mark U+FEFF.
  \<^verbatim>\<open>selectedColor.replace('40', '')\<close> removes the first occurrence of \<^verbatim>\<open>40\<close>.
\<close>

definition is_space :: "nat \<Rightarrow> bool" where
  "is_space c =
     (c \<in> set [9, 10, 11, 12, 13, 32, 160, 5760, 8192, 8193, 8194, 8195, 8196, 8197, 8198,
                8199, 8200, 8201, 8202, 8232, 8233, 8239, 8287, 12288, 65279])"

definition trim_empty :: "js_string \<Rightarrow> bool" where
  "trim_empty v = list_all is_space v"

fun replace_40 :: "string \<Rightarrow> string" where
  "replace_40 (a # b # cs) =
     (if a = CHR ''4'' \<and> b = CHR ''0'' then cs else a # replace_40 (b # cs))"
| "replace_40 cs = cs"

definition handleTextSubmit :: "Canvas \<Rightarrow> int \<Rightarrow> Canvas" where
  "handleTextSubmit s now =
     (case textInput s of
        None \<Rightarrow> s\<lparr>textInput := None\<rparr>
      | Some ti \<Rightarrow>
          if trim_empty (input_value ti) then s\<lparr>textInput := None\<rparr>
          else
            (case input_editingId ti of
               Some editingId \<Rightarrow>
                 s\<lparr>textLabels :=
                     map (\<lambda>label. if label_id label = editingId
                                   then label\<lparr>label_text := input_value ti\<rparr> else label)
                       (textLabels s),
                   textInput := None\<rparr>
             | None \<Rightarrow>
                 (let newLabel = \<lparr>label_id = now, label_position = input_position ti,
                                   label_text = input_value ti,
                                   label_color = replace_40 (selectedColor s),
                                   label_fontSize = 16\<rparr>
                  in s\<lparr>textLabels := textLabels s @ [newLabel],
                        actionHistory := actionHistory s @ [TextAction newLabel],
                        textInput := None\<rparr>)))"

definition handleTextDelete :: "Canvas \<Rightarrow> Canvas" where
  "handleTextDelete s =
     (case textInput s of
        None \<Rightarrow> s
      | Some ti \<Rightarrow>
          (case input_editingId ti of
             None \<Rightarrow> s
           | Some editingId \<Rightarrow>
               s\<lparr>textLabels := filter (\<lambda>label. label_id label \<noteq> editingId) (textLabels s),
                 textInput := None\<rparr>))"

text \<open>The \<^verbatim>\<open>onChange\<close> of the input field, and Escape or the cancel button.\<close>

definition handleTextChange :: "Canvas \<Rightarrow> js_string \<Rightarrow> Canvas" where
  "handleTextChange s v =
     s\<lparr>textInput := (case textInput s of None \<Rightarrow> None
                       | Some prev \<Rightarrow> Some (prev\<lparr>input_value := v\<rparr>))\<rparr>"

definition handleTextCancel :: "Canvas \<Rightarrow> Canvas" where
  "handleTextCancel s = s\<lparr>textInput := None\<rparr>"

datatype Direction = Up | Down | Left | Right

definition handlePanCanvas :: "Canvas \<Rightarrow> Direction \<Rightarrow> Canvas" where
  "handlePanCanvas s direction =
     (let panAmount = 50; prev = viewOffset s
      in s\<lparr>viewOffset :=
             (case direction of
                Up \<Rightarrow> prev\<lparr>py := py prev + panAmount\<rparr>
              | Down \<Rightarrow> prev\<lparr>py := py prev - panAmount\<rparr>
              | Left \<Rightarrow> prev\<lparr>px := px prev + panAmount\<rparr>
              | Right \<Rightarrow> prev\<lparr>px := px prev - panAmount\<rparr>)\<rparr>)"

text \<open>The effect of the mobile position slider, which runs on a touch device.\<close>

definition mobileSliderEffect :: "Canvas \<Rightarrow> real \<Rightarrow> Canvas" where
  "mobileSliderEffect s mobileSliderValue =
     (let maxOffset = 200;
          offsetX = (mobileSliderValue - 50) * (maxOffset / 50);
          offsetY = (mobileSliderValue - 50) * (maxOffset / 50)
      in s\<lparr>viewOffset := \<lparr>px = 50 + offsetX, py = 50 + offsetY\<rparr>\<rparr>)"

text \<open>
  The effect on \<^verbatim>\<open>[tool, currentTool]\<close>: leaving the room tool discards the draft room,
  leaving the freehand tool discards the stroke.
\<close>

definition toolEffect :: "Canvas \<Rightarrow> Canvas" where
  "toolEffect s =
     (if tool s \<noteq> currentTool s
      then
        (let s1 = (if currentTool s = Some RoomTool \<and> tool s \<noteq> Some RoomTool
                   then s\<lparr>currentRoom := [], isRoomClosed := False\<rparr> else s);
             s2 = (if currentTool s = Some FreehandTool \<and> tool s \<noteq> Some FreehandTool
                   then s1\<lparr>currentPath := [], isDrawing := False\<rparr> else s1)
         in s2\<lparr>currentTool := tool s\<rparr>)
      else s)"

subsection \<open>Runs of the component\<close>

text \<open>
  Everything that changes the modelled state: the handlers of the canvas element, of the
  Done button and of the text box, the functions the parent calls through the window
  object, and a change of the props by the parent (tool, colour, zoom buttons).
\<close>

datatype Event =
    PointerDown PointerEvent int
  | PointerMove PointerEvent
  | PointerUp int
  | PointerLeave
  | RoomComplete int
  | Undo
  | Clear
  | Pan Direction
  | TextChange js_string
  | TextSubmit int
  | TextDelete
  | TextCancel
  | MobileSlider real
  | SetTool "Tool option"
  | SetColor string
  | ZoomIn
  | ZoomOut

fun handle :: "Canvas \<Rightarrow> Event \<Rightarrow> Canvas" where
  "handle s (PointerDown e now) = handlePointerDown s e now"
| "handle s (PointerMove e) = handlePointerMove s e"
| "handle s (PointerUp now) = handlePointerUp s now"
| "handle s PointerLeave = handlePointerLeave s"
| "handle s (RoomComplete now) = handleRoomComplete s now"
| "handle s Undo = handleUndo s"
| "handle s Clear = handleClear s"
| "handle s (Pan direction) = handlePanCanvas s direction"
| "handle s (TextChange v) = handleTextChange s v"
| "handle s (TextSubmit now) = handleTextSubmit s now"
| "handle s TextDelete = handleTextDelete s"
| "handle s TextCancel = handleTextCancel s"
| "handle s (MobileSlider v) = mobileSliderEffect s v"
| "handle s (SetTool t) = s\<lparr>tool := t\<rparr>"
| "handle s (SetColor c) = s\<lparr>selectedColor := c\<rparr>"
| "handle s ZoomIn = handleZoomIn s"
| "handle s ZoomOut = handleZoomOut s"

text \<open>
  The dependency list of \<^verbatim>\<open>handlePointerDown\<close> is \<^verbatim>\<open>tool\<close>, \<^verbatim>\<open>currentRoom\<close>, \<^verbatim>\<open>rooms\<close>,
  \<^verbatim>\<open>selectedColor\<close>, \<^verbatim>\<open>zoom\<close>, \<^verbatim>\<open>lastClickTime\<close>, \<^verbatim>\<open>lastClickedText\<close>, the parent's
  \<^verbatim>\<open>onRoomsChange\<close> and the memoized functions \<^verbatim>\<open>calculateArea\<close>, \<^verbatim>\<open>getEventPoint\<close>,
  \<^verbatim>\<open>getTouchDistance\<close> (made once), \<^verbatim>\<open>screenToGrid\<close>, \<^verbatim>\<open>gridToScreen\<close> (made anew when
  \<^verbatim>\<open>zoom\<close> or \<^verbatim>\<open>viewOffset\<close> changes) and \<^verbatim>\<open>findElementAtPoint\<close> (made anew when \<^verbatim>\<open>rooms\<close>,
  \<^verbatim>\<open>freehandPaths\<close>, \<^verbatim>\<open>textLabels\<close>, \<^verbatim>\<open>zoom\<close> or \<^verbatim>\<open>viewOffset\<close> changes). React compares
  the values with \<^verbatim>\<open>Object.is\<close>: a number or string has changed when its value has, an
  array or object when a setter has stored another array or object, whatever its content.

  \<open>stores_dependency s ev\<close> says that the handler of \<open>ev\<close>, called in state \<open>s\<close>, stores a
  new array in \<^verbatim>\<open>rooms\<close>, \<^verbatim>\<open>freehandPaths\<close>, \<^verbatim>\<open>textLabels\<close> or \<^verbatim>\<open>currentRoom\<close> or a new
  object in \<^verbatim>\<open>viewOffset\<close>: every setter call of the handlers on these five builds its
  argument with a spread, \<^verbatim>\<open>filter\<close>, \<^verbatim>\<open>map\<close> or a literal. Each clause repeats the tests
  under which the handler reaches such a call.
\<close>

fun stores_dependency :: "Canvas \<Rightarrow> Event \<Rightarrow> bool" where
  "stores_dependency s (PointerDown e now) =
     (ev_touches e \<noteq> Some 2 \<and> \<not> downPinching s
      \<and> (case findElementAtPoint s (ev_point e) of
            Some (TextHit textLabel) \<Rightarrow> False
          | element \<Rightarrow>
              (tool s = Some RoomTool
                 \<and> \<not> (length (currentRoom s) \<ge> 3
                        \<and> distance (ev_point e)
                              (gridToScreen (zoom s) (viewOffset s) (currentRoom s ! 0)) < 30))
              \<or> (tool s = Some EraseTool \<and> element \<noteq> None)))"
| "stores_dependency s (PointerMove e) = (isDraggingText s \<noteq> None)"
| "stores_dependency s (PointerUp now) =
     (isDraggingText s = None \<and> \<not> isPinching s
      \<and> tool s = Some FreehandTool \<and> isDrawing s \<and> length (currentPath s) > 1)"
| "stores_dependency s PointerLeave = False"
| "stores_dependency s (RoomComplete now) =
     (\<not> (length (currentRoom s) < 3 \<or> \<not> isRoomClosed s))"
| "stores_dependency s Undo =
     (length (actionHistory s) \<noteq> 0
      \<and> (case actionHistory s ! (length (actionHistory s) - 1) of
            DeleteAction ids types \<Rightarrow> False
          | lastAction \<Rightarrow> True))"
| "stores_dependency s Clear = True"
| "stores_dependency s (Pan direction) = True"
| "stores_dependency s (TextChange v) = False"
| "stores_dependency s (TextSubmit now) =
     (case textInput s of
        None \<Rightarrow> False
      | Some ti \<Rightarrow> \<not> trim_empty (input_value ti))"
| "stores_dependency s TextDelete =
     (case textInput s of
        None \<Rightarrow> False
      | Some ti \<Rightarrow> input_editingId ti \<noteq> None)"
| "stores_dependency s TextCancel = False"
| "stores_dependency s (MobileSlider v) = True"
| "stores_dependency s (SetTool t) = False"
| "stores_dependency s (SetColor c) = False"
| "stores_dependency s ZoomIn = False"
| "stores_dependency s ZoomOut = False"

text \<open>
  The tool effect stores a new \<^verbatim>\<open>currentRoom\<close> when the room tool is left.
\<close>

definition toolEffect_stores :: "Canvas \<Rightarrow> bool" where
  "toolEffect_stores s =
     (tool s \<noteq> currentTool s \<and> currentTool s = Some RoomTool \<and> tool s \<noteq> Some RoomTool)"

text \<open>
  Whether \<^verbatim>\<open>handlePointerDown\<close> is made anew in the renders of an event that leads from
  \<open>s\<close> to \<open>s'\<close>, the handler's result being \<open>s1\<close>.
\<close>

definition pointerDown_renewed :: "Canvas \<Rightarrow> Event \<Rightarrow> Canvas \<Rightarrow> Canvas \<Rightarrow> bool" where
  "pointerDown_renewed s ev s1 s' =
     (tool s' \<noteq> tool s \<or> zoom s' \<noteq> zoom s \<or> selectedColor s' \<noteq> selectedColor s
      \<or> lastClickTime s' \<noteq> lastClickTime s \<or> lastClickedText s' \<noteq> lastClickedText s
      \<or> stores_dependency s ev \<or> toolEffect_stores s1)"

text \<open>
  One event: its handler, then the tool effect of the render that follows. Neither writes
  \<open>downPinching\<close>; it takes the \<^verbatim>\<open>isPinching\<close> of the new state if \<^verbatim>\<open>handlePointerDown\<close> is
  made anew, and stays as it is otherwise.
\<close>

definition step :: "Canvas \<Rightarrow> Event \<Rightarrow> Canvas" where
  "step s ev =
     (let s1 = handle s ev;
          s2 = toolEffect s1
      in s2\<lparr>downPinching :=
               (if pointerDown_renewed s ev s1 s2 then isPinching s2 else downPinching s)\<rparr>)"

definition run :: "Event list \<Rightarrow> Canvas" where
  "run evs = foldl step (toolEffect initial) evs"

inductive reachable :: "Canvas \<Rightarrow> bool" where
  reachable_initial: "reachable (toolEffect initial)"
| reachable_step: "reachable s \<Longrightarrow> reachable (step s ev)"

subsection \<open>Export\<close>

text \<open>
  The bounds \<^verbatim>\<open>minX, minY, maxX, maxY\<close> start at \<^verbatim>\<open>Infinity\<close> and \<^verbatim>\<open>-Infinity\<close>; \<open>None\<close>
  is that starting value, on which \<^verbatim>\<open>Math.min\<close> and \<^verbatim>\<open>Math.max\<close> return their other
  argument.
\<close>

record Bounds =
  minX :: real
  minY :: real
  maxX :: real
  maxY :: real

definition include_box :: "Bounds option \<Rightarrow> Point \<Rightarrow> Point \<Rightarrow> Bounds option" where
  "include_box bounds lo hi =
     (case bounds of
        None \<Rightarrow> Some \<lparr>minX = px lo, minY = py lo, maxX = px hi, maxY = py hi\<rparr>
      | Some b \<Rightarrow> Some \<lparr>minX = min (minX b) (px lo), minY = min (minY b) (py lo),
                         maxX = max (maxX b) (px hi), maxY = max (maxY b) (py hi)\<rparr>)"

definition include_point :: "Bounds option \<Rightarrow> Point \<Rightarrow> Bounds option" where
  "include_point bounds point = include_box bounds point point"

text \<open>The three \<^verbatim>\<open>forEach\<close> passes over rooms, paths and labels, on \<open>(hasContent, bounds)\<close>.\<close>

definition rooms_content :: "bool \<times> Bounds option \<Rightarrow> Room list \<Rightarrow> bool \<times> Bounds option" where
  "rooms_content =
     foldl (\<lambda>(hasContent, bounds) room.
              if length (room_points room) \<ge> 3
              then (True, foldl include_point bounds (room_points room))
              else (hasContent, bounds))"

definition paths_content ::
  "bool \<times> Bounds option \<Rightarrow> FreehandPath list \<Rightarrow> bool \<times> Bounds option" where
  "paths_content =
     foldl (\<lambda>(hasContent, bounds) path.
              if length (path_points path) \<ge> 2
              then (True, foldl include_point bounds (path_points path))
              else (hasContent, bounds))"

definition labels_content ::
  "bool \<times> Bounds option \<Rightarrow> TextLabel list \<Rightarrow> bool \<times> Bounds option" where
  "labels_content =
     foldl (\<lambda>(hasContent, bounds) label.
              (True, include_box bounds
                 \<lparr>px = px (label_position label) - 2, py = py (label_position label) - 1\<rparr>
                 \<lparr>px = px (label_position label) + 2, py = py (label_position label) + 1\<rparr>))"

definition export_size :: "Bounds \<Rightarrow> real \<times> real" where
  "export_size b =
     (let gridPadding = 2;
          minX1 = minX b - gridPadding;
          minY1 = minY b - gridPadding;
          maxX1 = maxX b + gridPadding;
          maxY1 = maxY b + gridPadding;
          gridWidth = maxX1 - minX1;
          gridHeight = maxY1 - minY1;
          baseScale = 40;
          exportWidth = gridWidth * baseScale;
          exportHeight = gridHeight * baseScale;
          minExportSize = 800;
          maxExportSize = 2400;
          (exportWidth1, exportHeight1) =
            (if max exportWidth exportHeight < minExportSize
             then (exportWidth * (minExportSize / max exportWidth exportHeight),
                   exportHeight * (minExportSize / max exportWidth exportHeight))
             else (exportWidth, exportHeight))
      in if max exportWidth1 exportHeight1 > maxExportSize
         then (exportWidth1 * (maxExportSize / max exportWidth1 exportHeight1),
               exportHeight1 * (maxExportSize / max exportWidth1 exportHeight1))
         else (exportWidth1, exportHeight1))"

text \<open>
  The assignments \<^verbatim>\<open>exportCanvas.width = exportWidth\<close> and
  \<^verbatim>\<open>exportCanvas.height = exportHeight\<close> store a number in an attribute of type unsigned
  long, which keeps its integer part: the two numbers are positive and at most 2400
  (lemma \<open>export_size_props\<close> below), where the conversion is the truncation.
  \<^verbatim>\<open>toDataURL\<close> encodes the bitmap of the canvas as a PNG of its width and height; for a
  canvas without pixels, of width or height 0, it returns the string \<^verbatim>\<open>data:,\<close>, which is
  no image.
\<close>

definition to_unsigned_long :: "real \<Rightarrow> nat" where
  "to_unsigned_long v = nat (js_trunc v)"

datatype DataURL = NoPixels | Png nat nat

definition toDataURL :: "nat \<Rightarrow> nat \<Rightarrow> DataURL" where
  "toDataURL width height = (if width = 0 \<or> height = 0 then NoPixels else Png width height)"

text \<open>
  What a call of \<^verbatim>\<open>handleExport\<close> does to the outside: nothing when the canvas element
  or the 2D context of the export canvas is missing, the \<^verbatim>\<open>alert\<close> with its message, or
  the download of the data URL of the export canvas. The drawing calls on the export
  canvas are not modelled. The handler calls no state setter: the state is returned as it
  was. With content the bounds are never \<open>None\<close> (lemma \<open>content_has_bounds\<close> below).
\<close>

datatype ExportOutcome =
    NoCanvas
  | Alert string
  | NoContext
  | Download DataURL

definition scene_content :: "Canvas \<Rightarrow> bool \<times> Bounds option" where
  "scene_content s =
     labels_content
       (paths_content (rooms_content (False, None) (rooms s)) (freehandPaths s))
       (textLabels s)"

definition handleExport :: "bool \<Rightarrow> bool \<Rightarrow> Canvas \<Rightarrow> ExportOutcome \<times> Canvas" where
  "handleExport canvasMounted contextAvailable s =
     (if \<not> canvasMounted then (NoCanvas, s)
      else
        (let (hasContent, bounds) = scene_content s
         in if \<not> hasContent
            then (Alert ''No content to export. Please draw something first.'', s)
            else
              (let (exportWidth, exportHeight) =
                     (case bounds of Some b \<Rightarrow> export_size b | None \<Rightarrow> (0, 0))
               in if \<not> contextAvailable then (NoContext, s)
                  else
                    (Download (toDataURL (to_unsigned_long exportWidth)
                                 (to_unsigned_long exportHeight)), s))))"

section \<open>Properties of the hit tester\<close>

text \<open>
  The tests of the specification: a label is hit within 30 pixels of its anchor, a path
  within 10 pixels of one of its recorded vertices; an edge of a polygon is crossed by the
  horizontal ray from the point when its ends lie on different sides of the ray's height
  and the point is left of the edge there. The edge at index \<open>i\<close> runs from the vertex
  before \<open>i\<close> (cyclically) to vertex \<open>i\<close>.
\<close>

definition near_label :: "Canvas \<Rightarrow> Point \<Rightarrow> TextLabel \<Rightarrow> bool" where
  "near_label s point label =
     (distance point (gridToScreen (zoom s) (viewOffset s) (label_position label)) < 30)"

definition near_path :: "Canvas \<Rightarrow> Point \<Rightarrow> FreehandPath \<Rightarrow> bool" where
  "near_path s point path =
     (\<exists>v\<in>set (path_points path).
        distance point (gridToScreen (zoom s) (viewOffset s) v) < 10)"

definition edge_crossed :: "Point list \<Rightarrow> Point \<Rightarrow> nat \<Rightarrow> bool" where
  "edge_crossed screenPoints point i =
     (let a = screenPoints ! i;
          b = screenPoints ! ((i + length screenPoints - 1) mod length screenPoints)
      in ((py a > py point) \<noteq> (py b > py point))
         \<and> px point < (px b - px a) * (py point - py a) / (py b - py a) + px a)"

lemma label_loop_find:
  "label_loop (zoom s) (viewOffset s) point ls = map_option TextHit (List.find (near_label s point) ls)"
  by (induction ls) (simp_all add: near_label_def)

lemma room_loop_find:
  "room_loop z off point rs = map_option RoomHit (List.find (isPointInRoom z off point) rs)"
  by (induction rs) simp_all

lemma pathPoint_loop_ex:
  "pathPoint_loop z off point vs \<longleftrightarrow> (\<exists>v\<in>set vs. distance point (gridToScreen z off v) < 10)"
  by (induction vs) simp_all

lemma path_loop_find:
  "path_loop (zoom s) (viewOffset s) point fs = map_option FreehandHit (List.find (near_path s point) fs)"
  by (induction fs) (simp_all add: near_path_def pathPoint_loop_ex)

lemma crossing_loop_parity:
  assumes "i \<le> length sp" "0 < i \<longrightarrow> j = i - 1" "i = 0 \<longrightarrow> j = length sp - 1"
  shows "crossing_loop sp point i j inside
      = (inside \<noteq> odd (length (filter (edge_crossed sp point) [i..<length sp])))"
  using assms
proof (induction sp point i j inside rule: crossing_loop.induct)
  case (1 sp point i j inside)
  show ?case
  proof (cases "i < length sp")
    case False
    then show ?thesis by (simp add: crossing_loop.simps [of sp point i j inside])
  next
    case True
    have jj: "j = (i + length sp - 1) mod length sp"
    proof (cases "i = 0")
      case True
      with "1.prems" \<open>i < length sp\<close> show ?thesis by simp
    next
      case False
      with "1.prems" \<open>i < length sp\<close> show ?thesis
        by (simp add: mod_if)
    qed
    define c where "c = edge_crossed sp point i"
    have c_eq: "(((py (sp ! i) > py point) \<noteq> (py (sp ! j) > py point))
         \<and> px point < (px (sp ! j) - px (sp ! i)) * (py point - py (sp ! i))
               / (py (sp ! j) - py (sp ! i)) + px (sp ! i)) = c"
      unfolding c_def edge_crossed_def Let_def jj [symmetric] by simp
    have step: "crossing_loop sp point i j inside
        = crossing_loop sp point (i + 1) i (if c then \<not> inside else inside)"
      by (subst crossing_loop.simps) (simp only: True if_True c_eq)
    have "crossing_loop sp point (i + 1) i (if c then \<not> inside else inside)
        = ((if c then \<not> inside else inside)
            \<noteq> odd (length (filter (edge_crossed sp point) [i + 1..<length sp])))"
      using "1.IH" [OF True] True unfolding c_eq by simp
    moreover have "[i..<length sp] = i # [i + 1..<length sp]"
      using True by (simp add: upt_rec)
    ultimately show ?thesis
      unfolding step by (auto simp: c_def)
  qed
qed

lemma isPointInRoom_parity:
  "isPointInRoom z off point room
     = odd (length (filter (edge_crossed (map (gridToScreen z off) (room_points room)) point)
                      [0..<length (room_points room)]))"
  using crossing_loop_parity [of 0 "map (gridToScreen z off) (room_points room)"
      "length (room_points room) - 1" point False]
  by (simp add: isPointInRoom_def Let_def)

lemma findElementAtPoint_find:
  "findElementAtPoint s point =
     (case List.find (near_label s point) (textLabels s) of
        Some label \<Rightarrow> Some (TextHit label)
      | None \<Rightarrow>
          (case List.find (isPointInRoom (zoom s) (viewOffset s) point) (rooms s) of
             Some room \<Rightarrow> Some (RoomHit room)
           | None \<Rightarrow>
               (case List.find (near_path s point) (freehandPaths s) of
                  Some path \<Rightarrow> Some (FreehandHit path)
                | None \<Rightarrow> None)))"
  by (simp add: findElementAtPoint_def label_loop_find room_loop_find path_loop_find
      split: option.splits)

lemma pointerDown_text:
  assumes "ev_touches e \<noteq> Some 2" "\<not> downPinching s"
    and "findElementAtPoint s (ev_point e) = Some (TextHit l)"
  shows "handlePointerDown s e now =
      (if now - lastClickTime s < 300 \<and> lastClickedText s = Some (label_id l)
       then s\<lparr>textInput := Some \<lparr>input_position = label_position l,
                    input_value = label_text l, input_isEditing = True,
                    input_editingId = Some (label_id l)\<rparr>,
              lastClickTime := 0, lastClickedText := None\<rparr>
       else s\<lparr>isDraggingText := Some \<lparr>dragging_id = label_id l,
                    dragging_offset =
                      \<lparr>px = px (ev_point e)
                             - px (gridToScreen (zoom s) (viewOffset s) (label_position l)),
                       py = py (ev_point e)
                             - py (gridToScreen (zoom s) (viewOffset s) (label_position l))\<rparr>\<rparr>,
              lastClickTime := now, lastClickedText := Some (label_id l)\<rparr>)"
  using assms by (simp add: handlePointerDown_def Let_def)

lemma pointerDown_erase:
  assumes "ev_touches e \<noteq> Some 2" "\<not> downPinching s" "tool s = Some EraseTool"
    and "\<forall>l. findElementAtPoint s (ev_point e) \<noteq> Some (TextHit l)"
  shows "handlePointerDown s e now =
      eraseElement (s\<lparr>lastClickTime := now, lastClickedText := None\<rparr>)
        (findElementAtPoint s (ev_point e))"
  using assms by (simp add: handlePointerDown_def Let_def split: option.splits Hit.splits)

subsection \<open>A sample scene\<close>

text \<open>
  A room on the grid square (0,0)-(4,4), a two-point stroke from (6,0) to (8,0) and a
  label at (10,10), at zoom 100 and offset (50,50), with the erase tool active.
\<close>

definition sample_room :: Room where
  "sample_room = \<lparr>room_id = 1, room_points = [pt 0 0, pt 4 0, pt 4 4, pt 0 4], room_label = [],
     room_area = 16, room_color = ''#000000'', room_selected = None\<rparr>"

definition sample_path :: FreehandPath where
  "sample_path = \<lparr>path_id = 2, path_points = [pt 6 0, pt 8 0], path_color = ''#000000'',
     path_width = 3\<rparr>"

definition sample_label :: TextLabel where
  "sample_label = \<lparr>label_id = 3, label_position = pt 10 10, label_text = [65],
     label_color = ''#000000'', label_fontSize = 16\<rparr>"

definition sample_scene :: Canvas where
  "sample_scene = initial\<lparr>tool := Some EraseTool, currentTool := Some EraseTool,
     rooms := [sample_room], freehandPaths := [sample_path], textLabels := [sample_label]\<rparr>"

lemma distance_less_iff:
  assumes "0 \<le> r"
  shows "distance a b < r \<longleftrightarrow> (px a - px b)\<^sup>2 + (py a - py b)\<^sup>2 < r\<^sup>2"
proof -
  have "r = sqrt (r\<^sup>2)" using assms by simp
  then have "distance a b < r \<longleftrightarrow> sqrt ((px a - px b)\<^sup>2 + (py a - py b)\<^sup>2) < sqrt (r\<^sup>2)"
    by (simp add: distance_def)
  then show ?thesis by (simp only: real_sqrt_less_iff)
qed

lemma pt_sel [simp]: "px (pt a b) = a" "py (pt a b) = b"
  by (simp_all add: pt_def)

lemma sample_view: "zoom sample_scene = 100" "viewOffset sample_scene = pt 50 50"
  "textLabels sample_scene = [sample_label]" "rooms sample_scene = [sample_room]"
  "freehandPaths sample_scene = [sample_path]"
  by (simp_all add: sample_scene_def initial_def pt_def)

lemma sample_screen:
  "gridToScreen 100 (pt 50 50) (pt a b) = pt (a * 20 + 50) (b * 20 + 50)"
  by (simp add: gridToScreen_def GRID_SIZE_def pt_def)

lemma sample_inside:
  "isPointInRoom 100 (pt 50 50) (pt 90 90) sample_room"
  "\<not> isPointInRoom 100 (pt 50 50) (pt 172 52) sample_room"
  "\<not> isPointInRoom 100 (pt 50 50) (pt 190 50) sample_room"
  by (simp_all add: isPointInRoom_parity sample_room_def sample_screen upt4 edge_crossed_def
      Let_def)

lemma sample_hits:
  "findElementAtPoint sample_scene (pt 250 250) = Some (TextHit sample_label)"
  "findElementAtPoint sample_scene (pt 90 90) = Some (RoomHit sample_room)"
  "findElementAtPoint sample_scene (pt 172 52) = Some (FreehandHit sample_path)"
  "findElementAtPoint sample_scene (pt 190 50) = None"
  by (simp_all add: findElementAtPoint_def sample_view sample_inside distance_less_iff
      sample_label_def sample_path_def sample_screen)

definition mouse_at :: "real \<Rightarrow> real \<Rightarrow> PointerEvent" where
  "mouse_at a b = \<lparr>ev_touches = None, ev_point = pt a b, ev_touchDistance = 0\<rparr>"

text \<open>
  Claim C6. \<open>findElementAtPoint\<close> returns at most one element (a value or \<open>None\<close>),
  testing in a fixed order: the first text label within 30 pixels of the point, else the
  first room in collection order that contains the point by the ray-casting test (an odd
  number of crossed edges), else the first freehand path with a recorded vertex within 10
  pixels of the point, else nothing. The pointer-down handler takes its hit from this
  function both for selecting a label (drag, or edit on a double click) and for erasing,
  whenever it gets past its pinch tests: the event has not two touches, and the value of
  \<^verbatim>\<open>isPinching\<close> that the handler holds, \<open>downPinching\<close>, is false.
\<close>

theorem findElementAtPoint_priority:
  "findElementAtPoint s point =
     (case List.find (near_label s point) (textLabels s) of
        Some label \<Rightarrow> Some (TextHit label)
      | None \<Rightarrow>
          (case List.find (isPointInRoom (zoom s) (viewOffset s) point) (rooms s) of
             Some room \<Rightarrow> Some (RoomHit room)
           | None \<Rightarrow>
               (case List.find (near_path s point) (freehandPaths s) of
                  Some path \<Rightarrow> Some (FreehandHit path)
                | None \<Rightarrow> None)))
   \<and> (isPointInRoom z off point room \<longleftrightarrow>
        odd (length (filter (edge_crossed (map (gridToScreen z off) (room_points room)) point)
                       [0..<length (room_points room)])))
   \<and> (ev_touches e \<noteq> Some 2 \<and> \<not> downPinching s
        \<and> findElementAtPoint s (ev_point e) = Some (TextHit l)
      \<longrightarrow> handlePointerDown s e now =
          (if now - lastClickTime s < 300 \<and> lastClickedText s = Some (label_id l)
           then s\<lparr>textInput := Some \<lparr>input_position = label_position l,
                        input_value = label_text l, input_isEditing = True,
                        input_editingId = Some (label_id l)\<rparr>,
                  lastClickTime := 0, lastClickedText := None\<rparr>
           else s\<lparr>isDraggingText := Some \<lparr>dragging_id = label_id l,
                        dragging_offset =
                          \<lparr>px = px (ev_point e)
                                 - px (gridToScreen (zoom s) (viewOffset s) (label_position l)),
                           py = py (ev_point e)
                                 - py (gridToScreen (zoom s) (viewOffset s) (label_position l))\<rparr>\<rparr>,
                  lastClickTime := now, lastClickedText := Some (label_id l)\<rparr>))
   \<and> (ev_touches e \<noteq> Some 2 \<and> \<not> downPinching s \<and> tool s = Some EraseTool
        \<and> (\<forall>l. findElementAtPoint s (ev_point e) \<noteq> Some (TextHit l))
      \<longrightarrow> handlePointerDown s e now =
          eraseElement (s\<lparr>lastClickTime := now, lastClickedText := None\<rparr>)
            (findElementAtPoint s (ev_point e)))"
  using findElementAtPoint_find [of s point] isPointInRoom_parity [of z off point room]
    pointerDown_text [of e s l now] pointerDown_erase [of e s now]
  by blast

theorem findElementAtPoint_priority_witness:
  "findElementAtPoint sample_scene (pt 250 250) = Some (TextHit sample_label)
   \<and> findElementAtPoint sample_scene (pt 90 90) = Some (RoomHit sample_room)
   \<and> findElementAtPoint sample_scene (pt 172 52) = Some (FreehandHit sample_path)
   \<and> findElementAtPoint sample_scene (pt 190 50) = None
   \<and> isDraggingText (handlePointerDown sample_scene (mouse_at 250 250) 1000)
       = Some \<lparr>dragging_id = 3, dragging_offset = pt 0 0\<rparr>
   \<and> rooms (handlePointerDown sample_scene (mouse_at 90 90) 1000) = []
   \<and> freehandPaths (handlePointerDown sample_scene (mouse_at 90 90) 1000) = [sample_path]
   \<and> textLabels (handlePointerDown sample_scene (mouse_at 90 90) 1000) = [sample_label]"
proof -
  have s: "\<not> downPinching sample_scene" "tool sample_scene = Some EraseTool"
    "lastClickedText sample_scene = None"
    by (simp_all add: sample_scene_def initial_def)
  have e: "ev_touches (mouse_at a b) \<noteq> Some 2" "ev_point (mouse_at a b) = pt a b" for a b
    by (simp_all add: mouse_at_def)
  have h1: "ev_touches (mouse_at 250 250) \<noteq> Some 2 \<and> \<not> downPinching sample_scene
      \<and> findElementAtPoint sample_scene (ev_point (mouse_at 250 250))
          = Some (TextHit sample_label)"
    by (simp add: s e sample_hits)
  have h2: "ev_touches (mouse_at 90 90) \<noteq> Some 2 \<and> \<not> downPinching sample_scene
      \<and> tool sample_scene = Some EraseTool
      \<and> (\<forall>l. findElementAtPoint sample_scene (ev_point (mouse_at 90 90)) \<noteq> Some (TextHit l))"
    by (simp add: s e sample_hits)
  note d1 = findElementAtPoint_priority [of sample_scene "pt 250 250" 100 "pt 50 50"
      sample_room "mouse_at 250 250" sample_label 1000,
      THEN conjunct2, THEN conjunct2, THEN conjunct1, THEN mp, OF h1]
  note d2 = findElementAtPoint_priority [of sample_scene "pt 90 90" 100 "pt 50 50"
      sample_room "mouse_at 90 90" sample_label 1000,
      THEN conjunct2, THEN conjunct2, THEN conjunct2, THEN mp, OF h2]
  have "isDraggingText (handlePointerDown sample_scene (mouse_at 250 250) 1000)
      = Some \<lparr>dragging_id = 3, dragging_offset = pt 0 0\<rparr>"
    unfolding d1
    by (simp add: s e sample_view)
      (simp add: sample_label_def gridToScreen_def GRID_SIZE_def pt_def)
  moreover have "rooms (handlePointerDown sample_scene (mouse_at 90 90) 1000) = []
      \<and> freehandPaths (handlePointerDown sample_scene (mouse_at 90 90) 1000) = [sample_path]
      \<and> textLabels (handlePointerDown sample_scene (mouse_at 90 90) 1000) = [sample_label]"
    unfolding d2 by (simp add: e sample_hits eraseElement_def sample_view)
  ultimately show ?thesis
    using sample_hits by simp
qed

section \<open>Closing and committing a room\<close>

lemma findElement_no_label:
  assumes "List.find (near_label s point) (textLabels s) = None"
  shows "findElementAtPoint s point \<noteq> Some (TextHit l)"
  using assms by (simp add: findElementAtPoint_find split: option.splits)

lemma pointerDown_close:
  assumes "tool s = Some RoomTool" "3 \<le> length (currentRoom s)"
    and "ev_touches e \<noteq> Some 2" "\<not> isPinching s" "\<not> downPinching s"
    and "List.find (near_label s (ev_point e)) (textLabels s) = None"
    and "distance (ev_point e) (gridToScreen (zoom s) (viewOffset s) (currentRoom s ! 0)) < 30"
  shows "handlePointerDown s e now
      = s\<lparr>lastClickTime := now, lastClickedText := None, isRoomClosed := True\<rparr>"
  using assms findElement_no_label [OF assms(6)]
  by (simp add: handlePointerDown_def Let_def split: option.splits Hit.splits)

lemma eraseElement_rooms: "set (rooms (eraseElement s h)) \<subseteq> set (rooms s)"
  by (auto simp: eraseElement_def split: option.splits Hit.splits)

lemma eraseElement_keeps:
  "actionHistory (eraseElement s h) = actionHistory s"
  "currentRoom (eraseElement s h) = currentRoom s"
  "isRoomClosed (eraseElement s h) = isRoomClosed s"
  by (simp_all add: eraseElement_def split: option.splits Hit.splits)

lemma pointerDown_rooms: "set (rooms (handlePointerDown s e now)) \<subseteq> set (rooms s)"
  using eraseElement_rooms [of "s\<lparr>lastClickTime := now, lastClickedText := None\<rparr>"]
  by (simp add: handlePointerDown_def Let_def split: option.splits Hit.splits)

lemma pointerDown_history: "actionHistory (handlePointerDown s e now) = actionHistory s"
  by (simp add: handlePointerDown_def Let_def eraseElement_keeps split: option.splits Hit.splits)

lemma pointerDown_draft:
  "currentRoom (handlePointerDown s e now) = currentRoom s
   \<or> currentRoom (handlePointerDown s e now)
       = currentRoom s @ [screenToGrid (zoom s) (viewOffset s) (ev_point e)]"
  by (simp add: handlePointerDown_def Let_def eraseElement_keeps split: option.splits Hit.splits)

lemma roomComplete_commit:
  assumes "3 \<le> length (currentRoom s)" "isRoomClosed s"
  shows "handleRoomComplete s now =
      s\<lparr>rooms := rooms s @ [\<lparr>room_id = now, room_points = currentRoom s, room_label = [],
                 room_area = calculateArea (currentRoom s), room_color = selectedColor s,
                 room_selected = None\<rparr>],
        currentRoom := [], isRoomClosed := False,
        actionHistory := actionHistory s @ [RoomAction \<lparr>room_id = now,
                 room_points = currentRoom s, room_label = [],
                 room_area = calculateArea (currentRoom s), room_color = selectedColor s,
                 room_selected = None\<rparr>]\<rparr>"
  using assms by (simp add: handleRoomComplete_def Let_def)

lemma roomComplete_idle:
  assumes "\<not> (3 \<le> length (currentRoom s) \<and> isRoomClosed s)"
  shows "handleRoomComplete s now = s"
  using assms by (auto simp: handleRoomComplete_def)

subsection \<open>How an event changes the rooms and the draft\<close>

text \<open>The room that \<open>handleRoomComplete\<close> builds from the draft at time \<open>now\<close>.\<close>

definition committed_room :: "Canvas \<Rightarrow> int \<Rightarrow> Room" where
  "committed_room s now =
     \<lparr>room_id = now, room_points = currentRoom s, room_label = [],
      room_area = calculateArea (currentRoom s), room_color = selectedColor s,
      room_selected = None\<rparr>"

lemma toolEffect_rooms [simp]: "rooms (toolEffect s) = rooms s"
  by (simp add: toolEffect_def Let_def)

lemma toolEffect_draft:
  "currentRoom (toolEffect s) = currentRoom s \<or> currentRoom (toolEffect s) = []"
  by (simp add: toolEffect_def Let_def)

lemma roomComplete_rooms:
  "rooms (handleRoomComplete s now) = rooms s
   \<or> rooms (handleRoomComplete s now) = rooms s @ [committed_room s now]"
  by (simp add: handleRoomComplete_def committed_room_def Let_def)

lemma undo_rooms: "set (rooms (handleUndo s)) \<subseteq> set (rooms s)"
  by (auto simp: handleUndo_def Let_def split: CanvasAction.splits)

lemma handle_rooms:
  assumes "room \<in> set (rooms (handle s ev))"
  shows "room \<in> set (rooms s) \<or> (\<exists>now. ev = RoomComplete now \<and> room = committed_room s now)"
proof (cases ev)
  case (PointerDown e now)
  with assms pointerDown_rooms [of s e now] show ?thesis by auto
next
  case (PointerMove e)
  with assms show ?thesis
    by (simp add: handlePointerMove_def handleZoomChange_def Let_def
        split: option.splits if_splits)
next
  case (PointerUp now)
  with assms show ?thesis by (simp add: handlePointerUp_def Let_def split: if_splits)
next
  case PointerLeave
  with assms show ?thesis by (simp add: handlePointerLeave_def)
next
  case (RoomComplete now)
  with assms roomComplete_rooms [of s now] show ?thesis by auto
next
  case Undo
  with assms undo_rooms [of s] show ?thesis by auto
next
  case Clear
  with assms show ?thesis by (simp add: handleClear_def)
next
  case (Pan d)
  with assms show ?thesis by (simp add: handlePanCanvas_def Let_def)
next
  case (TextChange v)
  with assms show ?thesis by (simp add: handleTextChange_def)
next
  case (TextSubmit now)
  with assms show ?thesis
    by (simp add: handleTextSubmit_def Let_def split: option.splits if_splits)
next
  case TextDelete
  with assms show ?thesis by (simp add: handleTextDelete_def split: option.splits)
next
  case TextCancel
  with assms show ?thesis by (simp add: handleTextCancel_def)
next
  case (MobileSlider v)
  with assms show ?thesis by (simp add: mobileSliderEffect_def Let_def)
next
  case (SetTool t)
  with assms show ?thesis by simp
next
  case (SetColor c)
  with assms show ?thesis by simp
next
  case ZoomIn
  with assms show ?thesis by (simp add: handleZoomIn_def)
next
  case ZoomOut
  with assms show ?thesis by (simp add: handleZoomOut_def)
qed

lemma handle_draft:
  "currentRoom (handle s ev) = currentRoom s \<or> currentRoom (handle s ev) = []
   \<or> (\<exists>e now. ev = PointerDown e now
        \<and> currentRoom (handle s ev)
            = currentRoom s @ [screenToGrid (zoom s) (viewOffset s) (ev_point e)])"
proof (cases ev)
  case (PointerDown e now)
  with pointerDown_draft [of s e now] show ?thesis by auto
next
  case (PointerMove e)
  then show ?thesis
    by (simp add: handlePointerMove_def handleZoomChange_def Let_def split: option.splits)
next
  case (PointerUp now)
  then show ?thesis by (simp add: handlePointerUp_def Let_def)
next
  case (RoomComplete now)
  then show ?thesis by (simp add: handleRoomComplete_def Let_def)
next
  case Undo
  then show ?thesis by (simp add: handleUndo_def Let_def split: CanvasAction.splits)
next
  case (TextSubmit now)
  then show ?thesis by (simp add: handleTextSubmit_def Let_def split: option.splits)
next
  case TextDelete
  then show ?thesis by (simp add: handleTextDelete_def split: option.splits)
qed (simp_all add: handlePointerLeave_def handleClear_def handlePanCanvas_def Let_def
    handleTextChange_def handleTextCancel_def mobileSliderEffect_def handleZoomIn_def
    handleZoomOut_def)

lemma step_sel:
  "rooms (step s ev) = rooms (handle s ev)"
  "zoom (step s ev) = zoom (handle s ev)"
  "currentRoom (step s ev) = currentRoom (toolEffect (handle s ev))"
  "isPinching (step s ev) = isPinching (handle s ev)"
  by (simp_all add: step_def Let_def toolEffect_def)

lemma step_rooms:
  assumes "room \<in> set (rooms (step s ev))"
  shows "room \<in> set (rooms s) \<or> (\<exists>now. ev = RoomComplete now \<and> room = committed_room s now)"
  using assms handle_rooms [of room s ev] by (simp add: step_sel)

subsection \<open>Sessions without a pinch\<close>

text \<open>
  The events that set \<^verbatim>\<open>isPinching\<close>: a touch start with two touches. As long as none has
  occurred, \<^verbatim>\<open>isPinching\<close> is false in every render, the pointer-down handler holds the
  value false whichever render made it, and an event is its handler followed by the tool
  effect.
\<close>

fun starts_pinch :: "Event \<Rightarrow> bool" where
  "starts_pinch (PointerDown e now) = (ev_touches e = Some 2)"
| "starts_pinch ev = False"

lemma toolEffect_pinching [simp]:
  "isPinching (toolEffect s) = isPinching s" "downPinching (toolEffect s) = downPinching s"
  by (simp_all add: toolEffect_def Let_def)

lemma eraseElement_pinching [simp]:
  "isPinching (eraseElement s h) = isPinching s"
  "downPinching (eraseElement s h) = downPinching s"
  by (simp_all add: eraseElement_def split: option.splits Hit.splits)

lemma handle_downPinching: "downPinching (handle s ev) = downPinching s"
proof (cases ev)
  case (PointerDown e now)
  then show ?thesis
    by (simp add: handlePointerDown_def Let_def split: option.splits Hit.splits)
next
  case (PointerMove e)
  then show ?thesis
    by (simp add: handlePointerMove_def handleZoomChange_def Let_def split: option.splits)
next
  case (PointerUp now)
  then show ?thesis by (simp add: handlePointerUp_def Let_def)
next
  case (RoomComplete now)
  then show ?thesis by (simp add: handleRoomComplete_def Let_def)
next
  case Undo
  then show ?thesis by (simp add: handleUndo_def Let_def split: CanvasAction.splits)
next
  case (TextSubmit now)
  then show ?thesis by (simp add: handleTextSubmit_def Let_def split: option.splits)
next
  case TextDelete
  then show ?thesis by (simp add: handleTextDelete_def split: option.splits)
qed (simp_all add: handlePointerLeave_def handleClear_def handlePanCanvas_def Let_def
    handleTextChange_def handleTextCancel_def mobileSliderEffect_def handleZoomIn_def
    handleZoomOut_def)

lemma handle_isPinching:
  assumes "\<not> starts_pinch ev" "\<not> isPinching s"
  shows "\<not> isPinching (handle s ev)"
proof (cases ev)
  case (PointerDown e now)
  with assms show ?thesis
    by (simp add: handlePointerDown_def Let_def split: option.splits Hit.splits)
next
  case (PointerMove e)
  with assms show ?thesis
    by (simp add: handlePointerMove_def handleZoomChange_def Let_def split: option.splits)
next
  case (PointerUp now)
  with assms show ?thesis by (simp add: handlePointerUp_def Let_def)
next
  case (RoomComplete now)
  with assms show ?thesis by (simp add: handleRoomComplete_def Let_def)
next
  case Undo
  with assms show ?thesis by (simp add: handleUndo_def Let_def split: CanvasAction.splits)
next
  case (TextSubmit now)
  with assms show ?thesis by (simp add: handleTextSubmit_def Let_def split: option.splits)
next
  case TextDelete
  with assms show ?thesis by (simp add: handleTextDelete_def split: option.splits)
qed (use assms in \<open>simp_all add: handlePointerLeave_def handleClear_def handlePanCanvas_def
    Let_def handleTextChange_def handleTextCancel_def mobileSliderEffect_def handleZoomIn_def
    handleZoomOut_def\<close>)

lemma step_downPinching:
  "downPinching (step s ev)
     = (if pointerDown_renewed s ev (handle s ev) (toolEffect (handle s ev))
        then isPinching (handle s ev) else downPinching s)"
  by (simp add: step_def Let_def)

lemma step_fresh:
  assumes "\<not> starts_pinch ev" "\<not> isPinching s" "\<not> downPinching s"
  shows "step s ev = toolEffect (handle s ev)"
proof -
  let ?s2 = "toolEffect (handle s ev)"
  have p: "\<not> isPinching ?s2" using handle_isPinching [OF assms(1,2)] by simp
  have d: "\<not> downPinching ?s2" using assms(3) by (simp add: handle_downPinching)
  have "step s ev = ?s2\<lparr>downPinching := downPinching ?s2\<rparr>"
    using p d assms(3) by (simp add: step_def Let_def)
  then show ?thesis by simp
qed

lemma foldl_step_fresh:
  assumes "list_all (\<lambda>ev. \<not> starts_pinch ev) evs" "\<not> isPinching s" "\<not> downPinching s"
  shows "foldl step s evs = foldl (\<lambda>s ev. toolEffect (handle s ev)) s evs
      \<and> \<not> isPinching (foldl step s evs) \<and> \<not> downPinching (foldl step s evs)"
  using assms
proof (induction evs arbitrary: s)
  case Nil
  then show ?case by simp
next
  case (Cons ev evs)
  then have e: "\<not> starts_pinch ev" and es: "list_all (\<lambda>ev. \<not> starts_pinch ev) evs"
    by simp_all
  have s: "step s ev = toolEffect (handle s ev)"
    using e Cons.prems(2,3) by (rule step_fresh)
  have p: "\<not> isPinching (step s ev)"
    unfolding s using handle_isPinching [OF e Cons.prems(2)] by simp
  have d: "\<not> downPinching (step s ev)"
    unfolding s using Cons.prems(3) by (simp add: handle_downPinching)
  from Cons.IH [OF es p d] show ?case by (auto simp: s)
qed

lemma run_fresh:
  assumes "list_all (\<lambda>ev. \<not> starts_pinch ev) evs"
  shows "run evs = foldl (\<lambda>s ev. toolEffect (handle s ev)) (toolEffect initial) evs"
    and "\<not> isPinching (run evs)" and "\<not> downPinching (run evs)"
proof -
  have "\<not> isPinching (toolEffect initial)" "\<not> downPinching (toolEffect initial)"
    by (simp_all add: initial_def)
  from foldl_step_fresh [OF assms this]
  show "run evs = foldl (\<lambda>s ev. toolEffect (handle s ev)) (toolEffect initial) evs"
    and "\<not> isPinching (run evs)" and "\<not> downPinching (run evs)"
    unfolding run_def by blast+
qed

subsection \<open>A pinch and the pointer-down handler\<close>

text \<open>
  A pinch that changes the zoom makes the pointer-down handler anew while \<^verbatim>\<open>isPinching\<close>
  is true; lifting the fingers resets \<^verbatim>\<open>isPinching\<close> and changes none of the handler's
  dependencies, so the handler goes on returning at its pinch test and a click changes
  nothing, until another event changes a dependency. The other way round, the start of a
  pinch changes none of the dependencies, and a click that follows it is handled as if no
  pinch were going on.
\<close>

definition two_fingers :: "real \<Rightarrow> PointerEvent" where
  "two_fingers d = \<lparr>ev_touches = Some 2, ev_point = pt 100 100, ev_touchDistance = d\<rparr>"

definition pinch_events :: "Event list" where
  "pinch_events =
     [PointerDown (two_fingers 100) 1000, PointerMove (two_fingers 150), PointerUp 2000]"

lemma pinch_run:
  "run pinch_events = initial\<lparr>currentTool := Some FreehandTool, zoom := 150,
     lastPinchZoom := 150, downPinching := True\<rparr>"
  by (simp add: pinch_events_def two_fingers_def run_def step_def toolEffect_def initial_def
      handlePointerDown_def handlePointerMove_def handlePointerUp_def handleZoomChange_def
      MIN_ZOOM_def MAX_ZOOM_def pointerDown_renewed_def toolEffect_stores_def Let_def)

lemma stale_pinch_click:
  "\<not> isPinching (run pinch_events) \<and> downPinching (run pinch_events)
   \<and> step (run pinch_events) (PointerDown (mouse_at a b) now) = run pinch_events"
  unfolding pinch_run
  by (simp add: step_def toolEffect_def initial_def handlePointerDown_def mouse_at_def
      pointerDown_renewed_def toolEffect_stores_def Let_def)

lemma fresh_pinch_click:
  "isPinching (run [PointerDown (two_fingers 100) 1000])
   \<and> \<not> downPinching (run [PointerDown (two_fingers 100) 1000])
   \<and> isDrawing (step (run [PointerDown (two_fingers 100) 1000]) (PointerDown (mouse_at 90 50) 2000))
   \<and> currentPath (step (run [PointerDown (two_fingers 100) 1000]) (PointerDown (mouse_at 90 50) 2000)) = [pt 2 0]"
  by (simp add: two_fingers_def run_def step_def toolEffect_def initial_def
      handlePointerDown_def mouse_at_def findElementAtPoint_def screenToGrid_def
      GRID_SIZE_def Math_round_def pointerDown_renewed_def toolEffect_stores_def Let_def pt_def)

subsection \<open>A run that places a label and three room vertices\<close>

text \<open>
  With the label tool a label \<open>A\<close> is put on grid point (0,0), at screen (50,50); with the
  room tool three vertices are clicked, the first at screen (90,50), 40 pixels from the
  label.
\<close>

definition closure_events :: "Event list" where
  "closure_events =
     [SetTool (Some LabelTool), PointerDown (mouse_at 50 50) 1000, TextChange [65],
      TextSubmit 2000, SetTool (Some RoomTool), PointerDown (mouse_at 90 50) 3000,
      PointerDown (mouse_at 130 130) 4000, PointerDown (mouse_at 50 130) 5000]"

definition closure_label :: TextLabel where
  "closure_label = \<lparr>label_id = 2000, label_position = pt 0 0, label_text = [65],
     label_color = ''#000000'', label_fontSize = 16\<rparr>"

definition closure_scene :: Canvas where
  "closure_scene = initial\<lparr>tool := Some RoomTool, currentTool := Some RoomTool,
     textLabels := [closure_label], actionHistory := [TextAction closure_label],
     currentRoom := [pt 2 0, pt 4 4, pt 0 4], lastClickTime := 5000\<rparr>"

lemma closure_fresh: "list_all (\<lambda>ev. \<not> starts_pinch ev) closure_events"
  by (simp add: closure_events_def mouse_at_def)

lemma closure_run: "run closure_events = closure_scene"
  unfolding run_fresh(1) [OF closure_fresh]
  by (simp add: closure_events_def closure_scene_def closure_label_def
      toolEffect_def initial_def handlePointerDown_def mouse_at_def handleTextChange_def
      handleTextSubmit_def trim_empty_def is_space_def findElementAtPoint_def
      screenToGrid_def gridToScreen_def GRID_SIZE_def Math_round_def distance_less_iff
      pt_def Let_def)

lemma closure_click:
  "handlePointerDown closure_scene (mouse_at 70 50) 6000 =
     closure_scene\<lparr>isDraggingText := Some \<lparr>dragging_id = 2000, dragging_offset = pt 20 0\<rparr>,
       lastClickTime := 6000, lastClickedText := Some 2000\<rparr>"
  by (simp add: closure_scene_def closure_label_def initial_def handlePointerDown_def
      mouse_at_def findElementAtPoint_def gridToScreen_def GRID_SIZE_def distance_less_iff
      pt_def Let_def)

lemma closure_near:
  "distance (ev_point (mouse_at 70 50))
     (gridToScreen (zoom closure_scene) (viewOffset closure_scene) (currentRoom closure_scene ! 0))
   < 30"
  by (simp add: closure_scene_def initial_def mouse_at_def gridToScreen_def GRID_SIZE_def
      distance_less_iff pt_def)

text \<open>
  Claim C4, as the code has it. With the room tool active and at least 3 draft vertices, a
  pointer-down that is not a touch start with two touches, outside a pinch (\<^verbatim>\<open>isPinching\<close>
  is false, and was false in the render that made the handler), that hits no text label
  (no label anchor within 30 pixels of the pointer: the handler tests labels before it
  looks at the tool) and whose screen distance to the first draft vertex is below 30 sets
  \<open>isRoomClosed\<close> and changes nothing else but the click tracking: no vertex is appended
  and no room committed. In a session in which no touch start with two touches has
  occurred the pinch condition holds at every pointer-down. No pointer-down adds a room,
  touches the history or empties the draft. \<open>handleRoomComplete\<close> appends the room, with
  the draft's points and their area, resets the draft and the flag and records the action;
  it does so only with at least 3 vertices and the closed flag, and otherwise does
  nothing. No other event adds a room: a room of the collection after an event was there
  before, or the event is the confirmation and the room is the one built from the draft.
\<close>

theorem room_closure:
  "(tool s = Some RoomTool \<and> 3 \<le> length (currentRoom s)
      \<and> ev_touches e \<noteq> Some 2 \<and> \<not> isPinching s \<and> \<not> downPinching s
      \<and> List.find (near_label s (ev_point e)) (textLabels s) = None
      \<and> distance (ev_point e) (gridToScreen (zoom s) (viewOffset s) (currentRoom s ! 0)) < 30
    \<longrightarrow> handlePointerDown s e now
        = s\<lparr>lastClickTime := now, lastClickedText := None, isRoomClosed := True\<rparr>)
   \<and> (list_all (\<lambda>ev. \<not> starts_pinch ev) evs
      \<longrightarrow> \<not> isPinching (run evs) \<and> \<not> downPinching (run evs))
   \<and> set (rooms (handlePointerDown s e now)) \<subseteq> set (rooms s)
   \<and> actionHistory (handlePointerDown s e now) = actionHistory s
   \<and> (currentRoom (handlePointerDown s e now) = currentRoom s
        \<or> currentRoom (handlePointerDown s e now)
            = currentRoom s @ [screenToGrid (zoom s) (viewOffset s) (ev_point e)])
   \<and> (3 \<le> length (currentRoom s) \<and> isRoomClosed s
      \<longrightarrow> handleRoomComplete s now =
          s\<lparr>rooms := rooms s @ [\<lparr>room_id = now, room_points = currentRoom s,
                     room_label = [], room_area = calculateArea (currentRoom s),
                     room_color = selectedColor s, room_selected = None\<rparr>],
            currentRoom := [], isRoomClosed := False,
            actionHistory := actionHistory s @ [RoomAction \<lparr>room_id = now,
                     room_points = currentRoom s, room_label = [],
                     room_area = calculateArea (currentRoom s),
                     room_color = selectedColor s, room_selected = None\<rparr>]\<rparr>)
   \<and> (\<not> (3 \<le> length (currentRoom s) \<and> isRoomClosed s)
      \<longrightarrow> handleRoomComplete s now = s)
   \<and> (\<forall>room\<in>set (rooms (step s ev)).
          room \<in> set (rooms s)
          \<or> (\<exists>t. ev = RoomComplete t \<and> room = committed_room s t))"
  using pointerDown_close [of s e now] pointerDown_rooms [of s e now]
    pointerDown_history [of s e now] pointerDown_draft [of s e now]
    roomComplete_commit [of s now] roomComplete_idle [of s now] step_rooms [of _ s ev]
    run_fresh(2,3) [of evs]
  by blast

theorem room_closure_witness:
  "list_all (\<lambda>ev. \<not> starts_pinch ev) closure_events
   \<and> run closure_events = closure_scene
   \<and> \<not> isPinching closure_scene \<and> \<not> downPinching closure_scene
   \<and> tool closure_scene = Some RoomTool
   \<and> 3 \<le> length (currentRoom closure_scene)
   \<and> List.find (near_label closure_scene (ev_point (mouse_at 95 55))) (textLabels closure_scene)
       = None
   \<and> distance (ev_point (mouse_at 95 55))
         (gridToScreen (zoom closure_scene) (viewOffset closure_scene)
            (currentRoom closure_scene ! 0)) < 30
   \<and> handlePointerDown closure_scene (mouse_at 95 55) 6000
       = closure_scene\<lparr>lastClickTime := 6000, lastClickedText := None, isRoomClosed := True\<rparr>
   \<and> rooms (handleRoomComplete (handlePointerDown closure_scene (mouse_at 95 55) 6000) 7000)
       = [\<lparr>room_id = 7000, room_points = [pt 2 0, pt 4 4, pt 0 4], room_label = [],
           room_area = calculateArea [pt 2 0, pt 4 4, pt 0 4], room_color = ''#000000'',
           room_selected = None\<rparr>]
   \<and> calculateArea [pt 2 0, pt 4 4, pt 0 4] = 8
   \<and> currentRoom (handleRoomComplete (handlePointerDown closure_scene (mouse_at 95 55) 6000) 7000)
       = []
   \<and> handleRoomComplete closure_scene 7000 = closure_scene"
proof -
  have v: "tool closure_scene = Some RoomTool" "3 \<le> length (currentRoom closure_scene)"
    "\<not> isRoomClosed closure_scene"
    "currentRoom closure_scene = [pt 2 0, pt 4 4, pt 0 4]" "rooms closure_scene = []"
    "selectedColor closure_scene = ''#000000''"
    by (simp_all add: closure_scene_def initial_def)
  have f: "list_all (\<lambda>ev. \<not> starts_pinch ev) closure_events"
    by (simp add: closure_events_def mouse_at_def)
  have p: "\<not> isPinching closure_scene" "\<not> downPinching closure_scene"
    using room_closure [of closure_scene "mouse_at 95 55" 6000 closure_events] f
    unfolding closure_run by blast+
  have e: "ev_touches (mouse_at 95 55) \<noteq> Some 2"
    by (simp add: mouse_at_def)
  have n: "List.find (near_label closure_scene (ev_point (mouse_at 95 55)))
      (textLabels closure_scene) = None"
    by (simp add: closure_scene_def closure_label_def initial_def mouse_at_def near_label_def
        gridToScreen_def GRID_SIZE_def distance_less_iff pt_def)
  have d: "distance (ev_point (mouse_at 95 55))
      (gridToScreen (zoom closure_scene) (viewOffset closure_scene)
         (currentRoom closure_scene ! 0)) < 30"
    by (simp add: closure_scene_def initial_def mouse_at_def gridToScreen_def GRID_SIZE_def
        distance_less_iff pt_def)
  have c: "handlePointerDown closure_scene (mouse_at 95 55) 6000
      = closure_scene\<lparr>lastClickTime := 6000, lastClickedText := None, isRoomClosed := True\<rparr>"
    using room_closure [of closure_scene "mouse_at 95 55" 6000] v p e n d by blast
  have a: "calculateArea [pt 2 0, pt 4 4, pt 0 4] = 8"
    by (simp add: calculateArea_shoelace shoelace_sum_def shoelace_term_def
        lessThan_nat_numeral lessThan_Suc)
  have r: "handleRoomComplete
      (closure_scene\<lparr>lastClickTime := 6000, lastClickedText := None, isRoomClosed := True\<rparr>) 7000
      = closure_scene\<lparr>lastClickTime := 6000, lastClickedText := None, isRoomClosed := True\<rparr>
          \<lparr>rooms := [\<lparr>room_id = 7000, room_points = [pt 2 0, pt 4 4, pt 0 4], room_label = [],
                 room_area = calculateArea [pt 2 0, pt 4 4, pt 0 4], room_color = ''#000000'',
                 room_selected = None\<rparr>],
           currentRoom := [], isRoomClosed := False,
           actionHistory := actionHistory closure_scene @ [RoomAction \<lparr>room_id = 7000,
                 room_points = [pt 2 0, pt 4 4, pt 0 4], room_label = [],
                 room_area = calculateArea [pt 2 0, pt 4 4, pt 0 4], room_color = ''#000000'',
                 room_selected = None\<rparr>]\<rparr>"
    using room_closure [of "closure_scene\<lparr>lastClickTime := 6000, lastClickedText := None,
        isRoomClosed := True\<rparr>" "mouse_at 95 55" 7000] v
    by simp
  have i: "handleRoomComplete closure_scene 7000 = closure_scene"
    using room_closure [of closure_scene "mouse_at 95 55" 7000] v by blast
  show ?thesis
    unfolding c r using f closure_run p v(1,2) n d a i by simp
qed

text \<open>
  The claim as worded fails when a text label lies under the pointer: after the run above
  the click at screen (70,50) is 20 pixels from the first vertex, and 20 pixels from the
  label; the handler starts dragging the label and the draft stays open.
\<close>

theorem room_closure_label_counterexample:
  "tool (run closure_events) = Some RoomTool
   \<and> 3 \<le> length (currentRoom (run closure_events))
   \<and> distance (ev_point (mouse_at 70 50))
         (gridToScreen (zoom (run closure_events)) (viewOffset (run closure_events))
            (currentRoom (run closure_events) ! 0)) < 30
   \<and> \<not> isRoomClosed (handlePointerDown (run closure_events) (mouse_at 70 50) 6000)
   \<and> isDraggingText (handlePointerDown (run closure_events) (mouse_at 70 50) 6000)
       = Some \<lparr>dragging_id = 2000, dragging_offset = pt 20 0\<rparr>"
  unfolding closure_run closure_click
  using closure_near by (simp add: closure_scene_def initial_def)

section \<open>Undo\<close>

lemma undo_room:
  assumes "actionHistory s \<noteq> []" "last (actionHistory s) = RoomAction r"
  shows "handleUndo s =
      s\<lparr>rooms := filter (\<lambda>room. room_id room \<noteq> room_id r) (rooms s),
        actionHistory := butlast (actionHistory s)\<rparr>"
  using assms by (simp add: handleUndo_def Let_def last_conv_nth)

lemma undo_freehand:
  assumes "actionHistory s \<noteq> []" "last (actionHistory s) = FreehandAction f"
  shows "handleUndo s =
      s\<lparr>freehandPaths := filter (\<lambda>path. path_id path \<noteq> path_id f) (freehandPaths s),
        actionHistory := butlast (actionHistory s)\<rparr>"
  using assms by (simp add: handleUndo_def Let_def last_conv_nth)

lemma undo_text:
  assumes "actionHistory s \<noteq> []" "last (actionHistory s) = TextAction l"
  shows "handleUndo s =
      s\<lparr>textLabels := filter (\<lambda>label. label_id label \<noteq> label_id l) (textLabels s),
        actionHistory := butlast (actionHistory s)\<rparr>"
  using assms by (simp add: handleUndo_def Let_def last_conv_nth)

lemma undo_empty: "actionHistory s = [] \<Longrightarrow> handleUndo s = s"
  by (simp add: handleUndo_def)

lemma filter_fresh_id:
  assumes "\<forall>room\<in>set rs. room_id room \<noteq> n"
  shows "filter (\<lambda>room. room_id room \<noteq> n) rs = rs"
  using assms by (induction rs) simp_all

lemma commit_undo:
  assumes "3 \<le> length (currentRoom s)" "isRoomClosed s"
    and "\<forall>room\<in>set (rooms s). room_id room \<noteq> now"
  shows "handleUndo (handleRoomComplete s now) = s\<lparr>currentRoom := [], isRoomClosed := False\<rparr>"
proof -
  let ?r = "\<lparr>room_id = now, room_points = currentRoom s, room_label = [],
      room_area = calculateArea (currentRoom s), room_color = selectedColor s,
      room_selected = None\<rparr>"
  let ?c = "handleRoomComplete s now"
  have c: "?c = s\<lparr>rooms := rooms s @ [?r], currentRoom := [], isRoomClosed := False,
      actionHistory := actionHistory s @ [RoomAction ?r]\<rparr>"
    using assms(1,2) by (rule roomComplete_commit)
  have "actionHistory ?c \<noteq> []" "last (actionHistory ?c) = RoomAction ?r"
    by (simp_all add: c)
  then have "handleUndo ?c =
      ?c\<lparr>rooms := filter (\<lambda>room. room_id room \<noteq> room_id ?r) (rooms ?c),
          actionHistory := butlast (actionHistory ?c)\<rparr>"
    by (rule undo_room)
  then show ?thesis
    by (simp add: c filter_fresh_id [OF assms(3)])
qed

subsection \<open>Timestamps as ids\<close>

text \<open>
  The handlers that read \<^verbatim>\<open>Date.now()\<close>, and runs in which the clock reads at least \<open>t\<close>
  at the first reading and strictly more at each later reading. \<open>final_time\<close> is the
  least time the clock can read after the run.
\<close>

fun event_time :: "Event \<Rightarrow> int option" where
  "event_time (PointerDown e now) = Some now"
| "event_time (PointerUp now) = Some now"
| "event_time (RoomComplete now) = Some now"
| "event_time (TextSubmit now) = Some now"
| "event_time ev = None"

fun clock_ok :: "int \<Rightarrow> Event list \<Rightarrow> bool" where
  "clock_ok t [] = True"
| "clock_ok t (ev # evs) =
     (case event_time ev of
        None \<Rightarrow> clock_ok t evs
      | Some now \<Rightarrow> t \<le> now \<and> clock_ok (now + 1) evs)"

fun final_time :: "int \<Rightarrow> Event list \<Rightarrow> int" where
  "final_time t [] = t"
| "final_time t (ev # evs) =
     final_time (case event_time ev of None \<Rightarrow> t | Some now \<Rightarrow> now + 1) evs"

lemma final_time_mono: "t \<le> t' \<Longrightarrow> final_time t evs \<le> final_time t' evs"
  by (induction evs arbitrary: t t') (simp_all split: option.splits)

lemma ids_below_clock:
  assumes "\<forall>room\<in>set (rooms s). room_id room < t" "clock_ok t evs"
  shows "\<forall>room\<in>set (rooms (foldl step s evs)). room_id room < final_time t evs"
  using assms
proof (induction evs arbitrary: s t)
  case Nil
  then show ?case by simp
next
  case (Cons ev evs)
  define t' where "t' = (case event_time ev of None \<Rightarrow> t | Some now \<Rightarrow> now + 1)"
  have le: "t \<le> t'" and ok: "clock_ok t' evs"
    using Cons.prems(2) by (auto simp: t'_def split: option.splits)
  have "\<forall>room\<in>set (rooms (step s ev)). room_id room < t'"
  proof
    fix room
    assume "room \<in> set (rooms (step s ev))"
    then consider "room \<in> set (rooms s)"
      | now where "ev = RoomComplete now" "room = committed_room s now"
      using step_rooms by blast
    then show "room_id room < t'"
    proof cases
      case 1
      with Cons.prems(1) le show ?thesis by fastforce
    next
      case 2
      then show ?thesis by (simp add: t'_def committed_room_def)
    qed
  qed
  from Cons.IH [OF this ok] show ?case by (simp add: t'_def)
qed

lemma clock_ok_append:
  "clock_ok t (evs @ [RoomComplete now]) \<longleftrightarrow> clock_ok t evs \<and> final_time t evs \<le> now"
  by (induction evs arbitrary: t) (simp_all split: option.splits)

lemma fresh_under_clock:
  assumes "clock_ok t (evs @ [RoomComplete now])"
  shows "\<forall>room\<in>set (rooms (run evs)). room_id room \<noteq> now"
proof -
  from assms have ok: "clock_ok t evs" and le: "final_time t evs \<le> now"
    by (simp_all add: clock_ok_append)
  have "\<forall>room\<in>set (rooms (toolEffect initial)). room_id room < t"
    by (simp add: initial_def)
  from ids_below_clock [OF this ok] le show ?thesis
    by (fastforce simp: run_def)
qed

subsection \<open>A run that commits a room and closes a second draft\<close>

definition closure_room :: Room where
  "closure_room = \<lparr>room_id = 7000, room_points = [pt 2 0, pt 4 4, pt 0 4], room_label = [],
     room_area = calculateArea [pt 2 0, pt 4 4, pt 0 4], room_color = ''#000000'',
     room_selected = None\<rparr>"

definition second_draft_events :: "Event list" where
  "second_draft_events =
     closure_events @
     [PointerDown (mouse_at 95 55) 6000, RoomComplete 7000,
      PointerDown (mouse_at 250 50) 8000, PointerDown (mouse_at 330 50) 9000,
      PointerDown (mouse_at 330 130) 10000, PointerDown (mouse_at 250 50) 11000]"

definition second_draft_scene :: Canvas where
  "second_draft_scene = closure_scene\<lparr>rooms := [closure_room],
     actionHistory := [TextAction closure_label, RoomAction closure_room],
     currentRoom := [pt 10 0, pt 14 0, pt 14 4], isRoomClosed := True, lastClickTime := 11000\<rparr>"

lemma upt3: "[0..<3] = [0, 1, 2]"
  by (simp add: upt_rec)

lemma second_draft_fresh: "list_all (\<lambda>ev. \<not> starts_pinch ev) second_draft_events"
  by (simp add: second_draft_events_def closure_events_def mouse_at_def)

lemma second_draft_run: "run second_draft_events = second_draft_scene"
  unfolding run_fresh(1) [OF second_draft_fresh]
  by (simp add: isPointInRoom_parity edge_crossed_def upt3 second_draft_events_def
      closure_events_def second_draft_scene_def
      closure_scene_def closure_label_def closure_room_def
      toolEffect_def initial_def handlePointerDown_def handleRoomComplete_def mouse_at_def
      handleTextChange_def handleTextSubmit_def trim_empty_def is_space_def
      findElementAtPoint_def screenToGrid_def gridToScreen_def GRID_SIZE_def Math_round_def
      distance_less_iff pt_def Let_def)

text \<open>
  Claim C5. Undo drops the last entry of the action history and filters the collection the
  entry belongs to (rooms, freehand paths or text labels) by the id of the entity in the
  entry. Committing a room and then undoing gives back the rooms collection as it was
  before the commit, the other collections and the history as they were, provided no
  room already carries the id of the new room. The id is the clock reading at the commit,
  so that proviso holds in every run in which the clock reads more at each reading than
  at the one before.
\<close>

theorem undo_removes_entry:
  "(actionHistory s \<noteq> [] \<and> last (actionHistory s) = RoomAction r
      \<longrightarrow> handleUndo s =
          s\<lparr>rooms := filter (\<lambda>room. room_id room \<noteq> room_id r) (rooms s),
            actionHistory := butlast (actionHistory s)\<rparr>)
   \<and> (actionHistory s \<noteq> [] \<and> last (actionHistory s) = FreehandAction f
      \<longrightarrow> handleUndo s =
          s\<lparr>freehandPaths := filter (\<lambda>path. path_id path \<noteq> path_id f) (freehandPaths s),
            actionHistory := butlast (actionHistory s)\<rparr>)
   \<and> (actionHistory s \<noteq> [] \<and> last (actionHistory s) = TextAction l
      \<longrightarrow> handleUndo s =
          s\<lparr>textLabels := filter (\<lambda>label. label_id label \<noteq> label_id l) (textLabels s),
            actionHistory := butlast (actionHistory s)\<rparr>)
   \<and> (3 \<le> length (currentRoom s) \<and> isRoomClosed s
        \<and> (\<forall>room\<in>set (rooms s). room_id room \<noteq> now)
      \<longrightarrow> rooms (handleUndo (handleRoomComplete s now)) = rooms s
          \<and> freehandPaths (handleUndo (handleRoomComplete s now)) = freehandPaths s
          \<and> textLabels (handleUndo (handleRoomComplete s now)) = textLabels s
          \<and> actionHistory (handleUndo (handleRoomComplete s now)) = actionHistory s)
   \<and> (clock_ok t (evs @ [RoomComplete now])
      \<longrightarrow> (\<forall>room\<in>set (rooms (run evs)). room_id room \<noteq> now))"
proof -
  have "rooms (handleUndo (handleRoomComplete s now)) = rooms s
      \<and> freehandPaths (handleUndo (handleRoomComplete s now)) = freehandPaths s
      \<and> textLabels (handleUndo (handleRoomComplete s now)) = textLabels s
      \<and> actionHistory (handleUndo (handleRoomComplete s now)) = actionHistory s"
    if "3 \<le> length (currentRoom s)" "isRoomClosed s"
      "\<forall>room\<in>set (rooms s). room_id room \<noteq> now"
    using commit_undo [OF that] by simp
  then show ?thesis
    using undo_room [of s r] undo_freehand [of s f] undo_text [of s l]
      fresh_under_clock [of t evs now]
    by blast
qed

theorem undo_removes_entry_witness:
  "clock_ok 0 (second_draft_events @ [RoomComplete 12000])
   \<and> 3 \<le> length (currentRoom (run second_draft_events))
   \<and> isRoomClosed (run second_draft_events)
   \<and> rooms (run second_draft_events) = [closure_room]
   \<and> rooms (handleRoomComplete (run second_draft_events) 12000)
       = [closure_room, committed_room (run second_draft_events) 12000]
   \<and> last (actionHistory (handleRoomComplete (run second_draft_events) 12000))
       = RoomAction (committed_room (run second_draft_events) 12000)
   \<and> rooms (handleUndo (handleRoomComplete (run second_draft_events) 12000)) = [closure_room]
   \<and> actionHistory (handleUndo (handleRoomComplete (run second_draft_events) 12000))
       = actionHistory (run second_draft_events)"
proof -
  have c: "clock_ok 0 (second_draft_events @ [RoomComplete 12000])"
    by (simp add: second_draft_events_def closure_events_def)
  have v: "3 \<le> length (currentRoom (run second_draft_events))"
    "isRoomClosed (run second_draft_events)"
    "rooms (run second_draft_events) = [closure_room]"
    by (simp_all add: second_draft_run second_draft_scene_def closure_scene_def initial_def)
  have k: "handleRoomComplete (run second_draft_events) 12000 =
      (run second_draft_events)\<lparr>rooms := rooms (run second_draft_events)
          @ [committed_room (run second_draft_events) 12000],
        currentRoom := [], isRoomClosed := False,
        actionHistory := actionHistory (run second_draft_events)
          @ [RoomAction (committed_room (run second_draft_events) 12000)]\<rparr>"
    unfolding committed_room_def using v(1,2) by (rule roomComplete_commit)
  note u = undo_removes_entry [of "run second_draft_events" _ _ _ 12000 0 second_draft_events]
  from u c have "\<forall>room\<in>set (rooms (run second_draft_events)). room_id room \<noteq> 12000"
    by blast
  with u v have "rooms (handleUndo (handleRoomComplete (run second_draft_events) 12000))
        = rooms (run second_draft_events)
      \<and> actionHistory (handleUndo (handleRoomComplete (run second_draft_events) 12000))
        = actionHistory (run second_draft_events)"
    by blast
  with c v show ?thesis by (simp add: k)
qed

section \<open>Room vertices stay on the grid\<close>

text \<open>
  The zoom the parent passes down stays between \<open>MIN_ZOOM\<close> and \<open>2.5 * MAX_ZOOM\<close>, so
  the scale that \<open>screenToGrid\<close> divides by is positive in every run.
\<close>

definition zoom_in_range :: "Canvas \<Rightarrow> bool" where
  "zoom_in_range s = (MIN_ZOOM \<le> zoom s \<and> zoom s \<le> MAX_ZOOM * 2.5)"

lemma toolEffect_zoom [simp]: "zoom (toolEffect s) = zoom s"
  by (simp add: toolEffect_def Let_def)

lemma eraseElement_zoom [simp]: "zoom (eraseElement s h) = zoom s"
  by (simp add: eraseElement_def split: option.splits Hit.splits)

lemma pointerDown_zoom [simp]: "zoom (handlePointerDown s e now) = zoom s"
  by (simp add: handlePointerDown_def Let_def split: option.splits Hit.splits)

lemma pointerMove_zoom:
  "zoom_in_range s \<Longrightarrow> zoom_in_range (handlePointerMove s e)"
  by (simp add: zoom_in_range_def handlePointerMove_def handleZoomChange_def Let_def
      MIN_ZOOM_def MAX_ZOOM_def split: option.splits)

lemma handle_zoom:
  assumes "zoom_in_range s"
  shows "zoom_in_range (handle s ev)"
proof (cases ev)
  case (PointerDown e now)
  with assms show ?thesis by (simp add: zoom_in_range_def)
next
  case (PointerMove e)
  with assms pointerMove_zoom show ?thesis by simp
next
  case (PointerUp now)
  with assms show ?thesis by (simp add: zoom_in_range_def handlePointerUp_def Let_def)
next
  case (RoomComplete now)
  with assms show ?thesis by (simp add: zoom_in_range_def handleRoomComplete_def Let_def)
next
  case Undo
  with assms show ?thesis
    by (simp add: zoom_in_range_def handleUndo_def Let_def split: CanvasAction.splits)
next
  case (TextSubmit now)
  with assms show ?thesis
    by (simp add: zoom_in_range_def handleTextSubmit_def Let_def split: option.splits)
next
  case TextDelete
  with assms show ?thesis
    by (simp add: zoom_in_range_def handleTextDelete_def split: option.splits)
next
  case ZoomIn
  with assms show ?thesis
    by (simp add: zoom_in_range_def handleZoomIn_def MIN_ZOOM_def MAX_ZOOM_def)
next
  case ZoomOut
  with assms show ?thesis
    by (simp add: zoom_in_range_def handleZoomOut_def MIN_ZOOM_def MAX_ZOOM_def)
qed (use assms in \<open>simp_all add: zoom_in_range_def handlePointerLeave_def handleClear_def
    handlePanCanvas_def Let_def handleTextChange_def handleTextCancel_def
    mobileSliderEffect_def\<close>)

lemma reachable_zoom: "reachable s \<Longrightarrow> zoom_in_range s"
proof (induction rule: reachable.induct)
  case reachable_initial
  show ?case by (simp add: zoom_in_range_def initial_def MIN_ZOOM_def MAX_ZOOM_def)
next
  case (reachable_step s ev)
  then show ?case using handle_zoom [of s ev] by (simp add: step_sel zoom_in_range_def)
qed

definition rooms_on_grid :: "Canvas \<Rightarrow> bool" where
  "rooms_on_grid s =
     (list_all on_grid (currentRoom s)
      \<and> list_all (\<lambda>room. list_all on_grid (room_points room)) (rooms s))"

lemma screenToGrid_on_grid: "on_grid (screenToGrid z off p)"
  by (simp add: on_grid_def screenToGrid_def Let_def Math_round_def)

lemma step_draft:
  "currentRoom (step s ev) = currentRoom s \<or> currentRoom (step s ev) = []
   \<or> (\<exists>e now. ev = PointerDown e now
        \<and> currentRoom (step s ev)
            = currentRoom s @ [screenToGrid (zoom s) (viewOffset s) (ev_point e)])"
  using handle_draft [of s ev] toolEffect_draft [of "handle s ev"]
  unfolding step_sel by metis

lemma step_on_grid:
  assumes "rooms_on_grid s"
  shows "rooms_on_grid (step s ev)"
proof -
  have d: "list_all on_grid (currentRoom (step s ev))"
    using step_draft [of s ev] assms screenToGrid_on_grid
    by (auto simp: rooms_on_grid_def)
  have "list_all on_grid (room_points room)" if "room \<in> set (rooms (step s ev))" for room
  proof -
    from that consider "room \<in> set (rooms s)"
      | now where "room = committed_room s now"
      using step_rooms by blast
    then show ?thesis
    proof cases
      case 1
      with assms show ?thesis by (simp add: rooms_on_grid_def list_all_iff)
    next
      case 2
      with assms show ?thesis by (simp add: rooms_on_grid_def committed_room_def)
    qed
  qed
  with d show ?thesis by (simp add: rooms_on_grid_def list_all_iff)
qed

lemma initial_on_grid: "rooms_on_grid (toolEffect initial)"
  by (simp add: rooms_on_grid_def toolEffect_def initial_def Let_def)

lemma reachable_on_grid: "reachable s \<Longrightarrow> rooms_on_grid s"
  by (induction rule: reachable.induct) (simp_all add: initial_on_grid step_on_grid)

lemma reachable_foldl: "reachable s \<Longrightarrow> reachable (foldl step s evs)"
  by (induction evs arbitrary: s) (simp_all add: reachable_step)

lemma reachable_run: "reachable (run evs)"
  unfolding run_def by (rule reachable_foldl) (rule reachable_initial)

text \<open>
  Claim C10. In every state the component can reach, every vertex of every committed room
  has integer grid coordinates, and so has every vertex of the draft. The reasons: a
  vertex enters the draft only as a result of \<open>screenToGrid\<close>, whose coordinates are
  roundings to the nearest integer (of a quotient by a positive scale, the zoom being
  between 50 and 500); an event leaves the draft as it is, empties it or appends such a
  vertex; and a room of the collection after an event is a room of the collection before
  it, unchanged, or the room just committed, whose points are the draft.
\<close>

theorem room_vertices_on_grid:
  "(reachable s \<longrightarrow>
      (\<forall>room\<in>set (rooms s). \<forall>p\<in>set (room_points room). px p \<in> \<int> \<and> py p \<in> \<int>)
      \<and> (\<forall>p\<in>set (currentRoom s). px p \<in> \<int> \<and> py p \<in> \<int>)
      \<and> 50 \<le> zoom s \<and> zoom s \<le> 500)
   \<and> px (screenToGrid z off q) = of_int \<lfloor>(px q - px off) / (GRID_SIZE * (z / 100)) + 1 / 2\<rfloor>
   \<and> py (screenToGrid z off q) = of_int \<lfloor>(py q - py off) / (GRID_SIZE * (z / 100)) + 1 / 2\<rfloor>
   \<and> (currentRoom (step s ev) = currentRoom s \<or> currentRoom (step s ev) = []
        \<or> (\<exists>e now. ev = PointerDown e now
             \<and> currentRoom (step s ev)
                 = currentRoom s @ [screenToGrid (zoom s) (viewOffset s) (ev_point e)]))
   \<and> (\<forall>room\<in>set (rooms (step s ev)).
          room \<in> set (rooms s)
          \<or> (\<exists>now. ev = RoomComplete now \<and> room = committed_room s now))
   \<and> room_points (committed_room s now) = currentRoom s"
proof -
  have "(\<forall>room\<in>set (rooms s). \<forall>p\<in>set (room_points room). px p \<in> \<int> \<and> py p \<in> \<int>)
      \<and> (\<forall>p\<in>set (currentRoom s). px p \<in> \<int> \<and> py p \<in> \<int>)
      \<and> 50 \<le> zoom s \<and> zoom s \<le> 500" if "reachable s"
    using reachable_on_grid [OF that] reachable_zoom [OF that]
    by (simp add: rooms_on_grid_def list_all_iff on_grid_def zoom_in_range_def MIN_ZOOM_def
        MAX_ZOOM_def)
  moreover have "px (screenToGrid z off q)
        = of_int \<lfloor>(px q - px off) / (GRID_SIZE * (z / 100)) + 1 / 2\<rfloor>
      \<and> py (screenToGrid z off q)
        = of_int \<lfloor>(py q - py off) / (GRID_SIZE * (z / 100)) + 1 / 2\<rfloor>"
    by (simp add: screenToGrid_def Let_def Math_round_def)
  moreover have "room_points (committed_room s now) = currentRoom s"
    by (simp add: committed_room_def)
  ultimately show ?thesis
    using step_draft [of s ev] step_rooms [of _ s ev] by blast
qed

theorem room_vertices_on_grid_witness:
  "reachable (run second_draft_events)
   \<and> rooms (run second_draft_events) = [closure_room]
   \<and> room_points closure_room = [pt 2 0, pt 4 4, pt 0 4]
   \<and> currentRoom (run second_draft_events) = [pt 10 0, pt 14 0, pt 14 4]
   \<and> list_all (\<lambda>room. list_all (\<lambda>p. px p \<in> \<int> \<and> py p \<in> \<int>) (room_points room))
        (rooms (run second_draft_events))
   \<and> list_all (\<lambda>p. px p \<in> \<int> \<and> py p \<in> \<int>) (currentRoom (run second_draft_events))"
proof -
  have r: "reachable (run second_draft_events)" by (rule reachable_run)
  have v: "rooms (run second_draft_events) = [closure_room]"
    "currentRoom (run second_draft_events) = [pt 10 0, pt 14 0, pt 14 4]"
    "room_points closure_room = [pt 2 0, pt 4 4, pt 0 4]"
    by (simp_all add: second_draft_run second_draft_scene_def closure_scene_def initial_def
        closure_room_def)
  from room_vertices_on_grid [of "run second_draft_events"] r
  have "(\<forall>room\<in>set (rooms (run second_draft_events)).
          \<forall>p\<in>set (room_points room). px p \<in> \<int> \<and> py p \<in> \<int>)
      \<and> (\<forall>p\<in>set (currentRoom (run second_draft_events)). px p \<in> \<int> \<and> py p \<in> \<int>)"
    by blast
  then have "list_all (\<lambda>room. list_all (\<lambda>p. px p \<in> \<int> \<and> py p \<in> \<int>) (room_points room))
        (rooms (run second_draft_events))
      \<and> list_all (\<lambda>p. px p \<in> \<int> \<and> py p \<in> \<int>) (currentRoom (run second_draft_events))"
    by (simp only: list_all_iff)
  with r v show ?thesis by simp
qed

section \<open>Export\<close>

text \<open>
  The content test of the specification: some room with at least 3 points, some freehand
  path with at least 2 points, or some text label.
\<close>

definition has_content :: "Canvas \<Rightarrow> bool" where
  "has_content s =
     ((\<exists>room\<in>set (rooms s). 3 \<le> length (room_points room))
      \<or> (\<exists>path\<in>set (freehandPaths s). 2 \<le> length (path_points path))
      \<or> textLabels s \<noteq> [])"

definition bounds_ok :: "bool \<times> Bounds option \<Rightarrow> bool" where
  "bounds_ok hb =
     (case snd hb of
        None \<Rightarrow> \<not> fst hb
      | Some b \<Rightarrow> minX b \<le> maxX b \<and> minY b \<le> maxY b)"

lemma include_box_ok:
  assumes "px lo \<le> px hi" "py lo \<le> py hi" "b = None \<or> bounds_ok (h, b)"
  shows "bounds_ok (h', include_box b lo hi)"
  using assms by (auto simp: bounds_ok_def include_box_def split: option.splits)

lemma include_points_ok:
  assumes "b = None \<or> bounds_ok (h, b)" "ps \<noteq> [] \<or> bounds_ok (h', b)"
  shows "bounds_ok (h', foldl include_point b ps)"
  using assms
proof (induction ps arbitrary: b h)
  case Nil
  then show ?case by simp
next
  case (Cons p ps)
  have "bounds_ok (h', include_point b p)"
    unfolding include_point_def using Cons.prems(1) by (intro include_box_ok) simp_all
  then show ?case using Cons.IH [of "include_point b p" h'] by simp
qed

lemma rooms_content_fst:
  "fst (rooms_content (h, b) rs) = (h \<or> (\<exists>room\<in>set rs. 3 \<le> length (room_points room)))"
  unfolding rooms_content_def by (induction rs arbitrary: h b) auto

lemma paths_content_fst:
  "fst (paths_content (h, b) fs) = (h \<or> (\<exists>path\<in>set fs. 2 \<le> length (path_points path)))"
  unfolding paths_content_def by (induction fs arbitrary: h b) auto

lemma labels_content_fst:
  "fst (labels_content (h, b) ls) = (h \<or> ls \<noteq> [])"
  unfolding labels_content_def by (induction ls arbitrary: h b) auto

lemma rooms_content_ok:
  "bounds_ok (h, b) \<Longrightarrow> bounds_ok (rooms_content (h, b) rs)"
  unfolding rooms_content_def
proof (induction rs arbitrary: h b)
  case Nil
  then show ?case by simp
next
  case (Cons r rs)
  show ?case
  proof (cases "3 \<le> length (room_points r)")
    case True
    then have "room_points r \<noteq> []" by auto
    then have "bounds_ok (True, foldl include_point b (room_points r))"
      using Cons.prems by (intro include_points_ok [where h = h]) (auto simp: bounds_ok_def split: option.splits)
    from Cons.IH [OF this] True show ?thesis by simp
  next
    case False
    with Cons.IH [OF Cons.prems] show ?thesis by simp
  qed
qed

lemma paths_content_ok:
  "bounds_ok (h, b) \<Longrightarrow> bounds_ok (paths_content (h, b) fs)"
  unfolding paths_content_def
proof (induction fs arbitrary: h b)
  case Nil
  then show ?case by simp
next
  case (Cons f fs)
  show ?case
  proof (cases "2 \<le> length (path_points f)")
    case True
    then have "path_points f \<noteq> []" by auto
    then have "bounds_ok (True, foldl include_point b (path_points f))"
      using Cons.prems by (intro include_points_ok [where h = h]) (auto simp: bounds_ok_def split: option.splits)
    from Cons.IH [OF this] True show ?thesis by simp
  next
    case False
    with Cons.IH [OF Cons.prems] show ?thesis by simp
  qed
qed

lemma labels_content_ok:
  "bounds_ok (h, b) \<Longrightarrow> bounds_ok (labels_content (h, b) ls)"
  unfolding labels_content_def
proof (induction ls arbitrary: h b)
  case Nil
  then show ?case by simp
next
  case (Cons l ls)
  have "bounds_ok (True, include_box b
      \<lparr>px = px (label_position l) - 2, py = py (label_position l) - 1\<rparr>
      \<lparr>px = px (label_position l) + 2, py = py (label_position l) + 1\<rparr>)"
    using Cons.prems by (intro include_box_ok [where h = h]) (auto simp: bounds_ok_def split: option.splits)
  from Cons.IH [OF this] show ?case by simp
qed

lemma scene_content_fst: "fst (scene_content s) = has_content s"
  unfolding scene_content_def has_content_def
  by (metis labels_content_fst paths_content_fst rooms_content_fst prod.collapse)

lemma scene_content_ok: "bounds_ok (scene_content s)"
proof -
  have "bounds_ok (False, None)" by (simp add: bounds_ok_def)
  then have "bounds_ok (rooms_content (False, None) (rooms s))"
    by (rule rooms_content_ok)
  then have "bounds_ok (paths_content (rooms_content (False, None) (rooms s)) (freehandPaths s))"
    by (metis paths_content_ok prod.collapse)
  then show ?thesis
    unfolding scene_content_def by (metis labels_content_ok prod.collapse)
qed

lemma content_has_bounds:
  assumes "has_content s"
  obtains b where "scene_content s = (True, Some b)" "minX b \<le> maxX b" "minY b \<le> maxY b"
proof -
  from assms have f: "fst (scene_content s)" by (simp add: scene_content_fst)
  with scene_content_ok [of s] obtain b where "snd (scene_content s) = Some b"
    "minX b \<le> maxX b" "minY b \<le> maxY b"
    by (auto simp: bounds_ok_def split: option.splits)
  with f that show thesis by (metis prod.collapse)
qed

lemma scaled_max:
  fixes w h c :: real
  assumes "0 < w" "0 < h" "0 < c"
  shows "max (w * (c / max w h)) (h * (c / max w h)) = c"
    and "0 < w * (c / max w h)" and "0 < h * (c / max w h)"
proof -
  define k where "k = c / max w h"
  have m: "0 < max w h" using assms by (simp add: less_max_iff_disj)
  then have k: "0 < k" using assms by (simp add: k_def)
  have "max (w * k) (h * k) = max w h * k"
  proof (cases "w \<le> h")
    case True
    then have "w * k \<le> h * k" using k by (simp add: mult_right_mono)
    with True show ?thesis by (simp only: max_absorb2)
  next
    case False
    then have "h * k \<le> w * k" "h \<le> w" using k by (simp_all add: mult_right_mono)
    then show ?thesis by (simp only: max_absorb1)
  qed
  also have "\<dots> = c" using m by (simp add: k_def)
  finally show "max (w * (c / max w h)) (h * (c / max w h)) = c"
    unfolding k_def .
  show "0 < w * (c / max w h)" "0 < h * (c / max w h)"
    using assms k unfolding k_def by (simp_all only: mult_pos_pos)
qed

definition clamp_up :: "real \<times> real \<Rightarrow> real \<times> real" where
  "clamp_up wh = (if max (fst wh) (snd wh) < 800
     then (fst wh * (800 / max (fst wh) (snd wh)), snd wh * (800 / max (fst wh) (snd wh)))
     else wh)"

definition clamp_down :: "real \<times> real \<Rightarrow> real \<times> real" where
  "clamp_down wh = (if max (fst wh) (snd wh) > 2400
     then (fst wh * (2400 / max (fst wh) (snd wh)), snd wh * (2400 / max (fst wh) (snd wh)))
     else wh)"

lemma export_size_clamps:
  "export_size b =
     clamp_down (clamp_up ((maxX b + 2 - (minX b - 2)) * 40, (maxY b + 2 - (minY b - 2)) * 40))"
  by (simp add: export_size_def clamp_up_def clamp_down_def Let_def)

lemma clamp_up_props:
  assumes "0 < fst wh" "0 < snd wh"
  shows "0 < fst (clamp_up wh) \<and> 0 < snd (clamp_up wh)
       \<and> 800 \<le> max (fst (clamp_up wh)) (snd (clamp_up wh))"
proof (cases "max (fst wh) (snd wh) < 800")
  case True
  then have "clamp_up wh = (fst wh * (800 / max (fst wh) (snd wh)),
      snd wh * (800 / max (fst wh) (snd wh)))"
    by (simp only: clamp_up_def if_True)
  with scaled_max [OF assms, of 800] show ?thesis by (simp only: fst_conv snd_conv) simp
next
  case False
  then have "clamp_up wh = wh" by (simp only: clamp_up_def if_False)
  with False assms show ?thesis by (simp only: not_less)
qed

lemma clamp_down_props:
  assumes "0 < fst wh" "0 < snd wh" "800 \<le> max (fst wh) (snd wh)"
  shows "0 < fst (clamp_down wh) \<and> 0 < snd (clamp_down wh)
       \<and> 800 \<le> max (fst (clamp_down wh)) (snd (clamp_down wh))
       \<and> max (fst (clamp_down wh)) (snd (clamp_down wh)) \<le> 2400"
proof (cases "max (fst wh) (snd wh) > 2400")
  case True
  then have "clamp_down wh = (fst wh * (2400 / max (fst wh) (snd wh)),
      snd wh * (2400 / max (fst wh) (snd wh)))"
    by (simp only: clamp_down_def if_True)
  with scaled_max [OF assms(1,2), of 2400] show ?thesis by (simp only: fst_conv snd_conv) simp
next
  case False
  then have "clamp_down wh = wh" by (simp only: clamp_down_def if_False)
  with False assms show ?thesis by (simp only: not_less)
qed

lemma export_size_props:
  assumes "minX b \<le> maxX b" "minY b \<le> maxY b"
  shows "0 < fst (export_size b) \<and> 0 < snd (export_size b)
       \<and> 800 \<le> max (fst (export_size b)) (snd (export_size b))
       \<and> max (fst (export_size b)) (snd (export_size b)) \<le> 2400"
proof -
  let ?wh = "((maxX b + 2 - (minX b - 2)) * 40, (maxY b + 2 - (minY b - 2)) * 40)"
  have "0 < fst ?wh" "0 < snd ?wh" using assms by simp_all
  from clamp_up_props [OF this]
  have u: "0 < fst (clamp_up ?wh)" "0 < snd (clamp_up ?wh)"
    "800 \<le> max (fst (clamp_up ?wh)) (snd (clamp_up ?wh))"
    by blast+
  from clamp_down_props [OF u] show ?thesis
    unfolding export_size_clamps .
qed

definition no_content_message :: string where
  "no_content_message = ''No content to export. Please draw something first.''"

lemma export_state: "snd (handleExport c x s) = s"
  by (simp add: handleExport_def Let_def split: prod.splits)

lemma export_no_canvas: "\<not> c \<Longrightarrow> fst (handleExport c x s) = NoCanvas"
  by (simp add: handleExport_def)

lemma export_no_content:
  assumes "c" "\<not> has_content s"
  shows "fst (handleExport c x s) = Alert no_content_message"
proof -
  obtain h b where hb: "scene_content s = (h, b)" by (cases "scene_content s")
  with assms(2) scene_content_fst [of s] have "\<not> h" by simp
  then show ?thesis
    using assms(1) by (simp add: handleExport_def no_content_message_def hb)
qed

lemma export_content:
  assumes "c" "has_content s"
  shows "\<exists>w h. fst (handleExport c x s)
        = (if x then Download (toDataURL (to_unsigned_long w) (to_unsigned_long h))
           else NoContext)
      \<and> 0 < w \<and> 0 < h \<and> 800 \<le> max w h \<and> max w h \<le> 2400"
proof -
  from assms(2) obtain b where b: "scene_content s = (True, Some b)"
    "minX b \<le> maxX b" "minY b \<le> maxY b"
    by (rule content_has_bounds)
  have "fst (handleExport c x s)
      = (if x then Download (toDataURL (to_unsigned_long (fst (export_size b)))
                               (to_unsigned_long (snd (export_size b))))
         else NoContext)"
    using assms(1) by (simp add: handleExport_def b(1) split_beta)
  with export_size_props [OF b(2,3)] show ?thesis by blast
qed

text \<open>
  When the data URL is no image: the padded bounds are \<open>W\<close> wide and \<open>H\<close> high, both at
  least 4; the larger export size is between 800 and 2400, and the smaller one is below 1,
  and stored as 0, exactly when the larger of \<open>W\<close> and \<open>H\<close> is more than 2400 times the
  smaller.
\<close>

lemma to_unsigned_long_zero:
  assumes "0 \<le> v"
  shows "to_unsigned_long v = 0 \<longleftrightarrow> v < 1"
proof -
  have "to_unsigned_long v = 0 \<longleftrightarrow> \<lfloor>v\<rfloor> < 1"
    using assms by (simp add: to_unsigned_long_def js_trunc_def)
  then show ?thesis by (simp only: floor_less_one)
qed

lemma export_size_small:
  fixes W H :: real
  assumes "4 \<le> W" "4 \<le> H"
  shows "(fst (clamp_down (clamp_up (W * 40, H * 40))) < 1
          \<or> snd (clamp_down (clamp_up (W * 40, H * 40))) < 1)
      \<longleftrightarrow> 2400 * min W H < max W H"
proof -
  define w h where "w = W * 40" and "h = H * 40"
  define m where "m = max w h"
  have wh: "160 \<le> w" "160 \<le> h" using assms by (simp_all add: w_def h_def)
  then have m: "160 \<le> m" "w \<le> m" "h \<le> m" by (simp_all add: m_def)
  have mm: "m = 40 * max W H" by (simp add: m_def w_def h_def max_mult_distrib_left mult.commute)
  consider "m < 800" | "800 \<le> m" "m \<le> 2400" | "2400 < m" by linarith
  then show ?thesis
  proof cases
    case 1
    define k where "k = 800 / m"
    have k: "1 < k" using 1 m(1) by (simp add: k_def)
    have n: "max w h < 800" using 1 by (simp only: m_def)
    have u: "clamp_up (w, h) = (w * k, h * k)"
      using n by (simp only: clamp_up_def fst_conv snd_conv if_True k_def m_def)
    have "max (w * k) (h * k) = 800"
      using scaled_max(1) [of w h 800] wh by (simp add: k_def m_def)
    then have d: "clamp_down (w * k, h * k) = (w * k, h * k)"
      by (simp add: clamp_down_def)
    have "w * 1 < w * k" "h * 1 < h * k"
      using k wh by (simp_all only: mult_strict_left_mono)
    then have "w < w * k" "h < h * k" by (simp_all only: mult_1_right)
    with wh have "1 \<le> w * k" "1 \<le> h * k" by linarith+
    moreover have "\<not> 2400 * min W H < max W H"
      using 1 assms unfolding mm by (auto simp: min_def max_def)
    ultimately show ?thesis
      unfolding w_def [symmetric] h_def [symmetric] u d by simp
  next
    case 2
    have n: "\<not> max w h < 800" "\<not> max w h > 2400"
      using 2 by (simp_all only: m_def not_less)
    have u: "clamp_up (w, h) = (w, h)"
      using n(1) by (simp only: clamp_up_def fst_conv snd_conv if_False)
    have d: "clamp_down (w, h) = (w, h)"
      using n(2) by (simp only: clamp_down_def fst_conv snd_conv if_False)
    have "\<not> 2400 * min W H < max W H"
      using 2 assms unfolding mm by (auto simp: min_def max_def)
    with wh show ?thesis
      unfolding w_def [symmetric] h_def [symmetric] u d by simp
  next
    case 3
    have n: "\<not> max w h < 800" "max w h > 2400"
      using 3 by (simp_all only: m_def not_less)
    have u: "clamp_up (w, h) = (w, h)"
      using n(1) by (simp only: clamp_up_def fst_conv snd_conv if_False)
    have d: "clamp_down (w, h) = (w * (2400 / m), h * (2400 / m))"
      using n(2) by (simp only: clamp_down_def fst_conv snd_conv if_True m_def)
    have mpos: "0 < m" using 3 by simp
    have a: "w * (2400 / m) < 1 \<longleftrightarrow> 2400 * w < m"
      using mpos by (simp add: field_simps)
    have b: "h * (2400 / m) < 1 \<longleftrightarrow> 2400 * h < m"
      using mpos by (simp add: field_simps)
    have "(2400 * w < m \<or> 2400 * h < m) \<longleftrightarrow> 2400 * min w h < max w h"
      using wh by (auto simp: m_def min_def max_def)
    also have "\<dots> \<longleftrightarrow> 2400 * min W H < max W H"
      by (auto simp: w_def h_def min_def max_def)
    finally show ?thesis
      unfolding w_def [symmetric] h_def [symmetric] u d fst_conv snd_conv a b .
  qed
qed

lemma export_no_pixels:
  assumes "scene_content s = (True, Some b)" "minX b \<le> maxX b" "minY b \<le> maxY b"
  shows "fst (handleExport True True s) = Download NoPixels
      \<longleftrightarrow> 2400 * min (maxX b - minX b + 4) (maxY b - minY b + 4)
            < max (maxX b - minX b + 4) (maxY b - minY b + 4)"
proof -
  let ?W = "maxX b - minX b + 4" and ?H = "maxY b - minY b + 4"
  have s: "export_size b = clamp_down (clamp_up (?W * 40, ?H * 40))"
    by (simp add: export_size_clamps algebra_simps)
  have p: "0 \<le> fst (export_size b)" "0 \<le> snd (export_size b)"
    using export_size_props [OF assms(2,3)] by simp_all
  have "fst (handleExport True True s)
      = Download (toDataURL (to_unsigned_long (fst (export_size b)))
                    (to_unsigned_long (snd (export_size b))))"
    by (simp add: handleExport_def assms(1) split_beta)
  then have "fst (handleExport True True s) = Download NoPixels
      \<longleftrightarrow> fst (export_size b) < 1 \<or> snd (export_size b) < 1"
    by (simp add: toDataURL_def to_unsigned_long_zero [OF p(1)] to_unsigned_long_zero [OF p(2)])
  also have "\<dots> \<longleftrightarrow> 2400 * min ?W ?H < max ?W ?H"
    unfolding s using assms(2,3) by (intro export_size_small) simp_all
  finally show ?thesis .
qed

subsection \<open>A scene that is long and flat\<close>

text \<open>
  A label \<open>A\<close> is put on grid point (0,0); the view is panned to the right 5760 times, by
  50 pixels each; a label \<open>B\<close> is put at the same place of the screen, which now is grid
  point (14400,0).
\<close>

definition flat_pans :: nat where
  "flat_pans = 5760"

definition flat_events :: "Event list" where
  "flat_events =
     [SetTool (Some LabelTool), PointerDown (mouse_at 50 50) 1000, TextChange [65],
      TextSubmit 2000]
     @ replicate flat_pans (Pan Right)
     @ [PointerDown (mouse_at 50 50) 3000, TextChange [66], TextSubmit 4000]"

definition flat_labels :: "TextLabel list" where
  "flat_labels =
     [\<lparr>label_id = 2000, label_position = pt 0 0, label_text = [65],
       label_color = ''#000000'', label_fontSize = 16\<rparr>,
      \<lparr>label_id = 4000, label_position = pt 14400 0, label_text = [66],
       label_color = ''#000000'', label_fontSize = 16\<rparr>]"

definition flat_scene :: Canvas where
  "flat_scene = initial\<lparr>tool := Some LabelTool, currentTool := Some LabelTool,
     textLabels := flat_labels,
     actionHistory := map TextAction flat_labels,
     viewOffset := pt (- 287950) 50, lastClickTime := 3000\<rparr>"

lemma pan_right_run:
  assumes "tool s = currentTool s"
  shows "foldl (\<lambda>s ev. toolEffect (handle s ev)) s (replicate n (Pan Right))
      = s\<lparr>viewOffset := \<lparr>px = px (viewOffset s) - 50 * real n, py = py (viewOffset s)\<rparr>\<rparr>"
  using assms
proof (induction n arbitrary: s)
  case 0
  then show ?case by simp
next
  case (Suc n)
  let ?t = "s\<lparr>viewOffset := \<lparr>px = px (viewOffset s) - 50, py = py (viewOffset s)\<rparr>\<rparr>"
  have t: "toolEffect (handlePanCanvas s Right) = ?t"
    using Suc.prems by (simp add: toolEffect_def handlePanCanvas_def Let_def)
  have "tool ?t = currentTool ?t" using Suc.prems by simp
  from Suc.IH [OF this] show ?case
    by (simp add: t algebra_simps)
qed

lemma flat_fresh: "list_all (\<lambda>ev. \<not> starts_pinch ev) flat_events"
  by (simp add: flat_events_def mouse_at_def list_all_iff)

lemma real_flat_pans: "real flat_pans = 5760"
  by (simp add: flat_pans_def)

lemma flat_run: "run flat_events = flat_scene"
proof -
  let ?f = "\<lambda>s ev. toolEffect (handle s ev)"
  let ?l = "\<lparr>label_id = 2000, label_position = pt 0 0, label_text = [65],
       label_color = ''#000000'', label_fontSize = 16\<rparr>"
  let ?a = "initial\<lparr>tool := Some LabelTool, currentTool := Some LabelTool,
     textLabels := [?l], actionHistory := [TextAction ?l], lastClickTime := 1000\<rparr>"
  have a: "foldl ?f (toolEffect initial)
      [SetTool (Some LabelTool), PointerDown (mouse_at 50 50) 1000, TextChange [65],
       TextSubmit 2000] = ?a"
    by (simp add: toolEffect_def initial_def handlePointerDown_def mouse_at_def
        handleTextChange_def handleTextSubmit_def trim_empty_def is_space_def
        findElementAtPoint_def screenToGrid_def GRID_SIZE_def Math_round_def pt_def Let_def)
  have b: "foldl ?f ?a (replicate flat_pans (Pan Right)) = ?a\<lparr>viewOffset := pt (- 287950) 50\<rparr>"
    by (subst pan_right_run) (simp_all add: initial_def real_flat_pans pt_def)
  have c: "foldl ?f (?a\<lparr>viewOffset := pt (- 287950) 50\<rparr>)
      [PointerDown (mouse_at 50 50) 3000, TextChange [66], TextSubmit 4000] = flat_scene"
    by (simp add: flat_scene_def flat_labels_def toolEffect_def initial_def
        handlePointerDown_def mouse_at_def handleTextChange_def handleTextSubmit_def
        trim_empty_def is_space_def findElementAtPoint_def screenToGrid_def gridToScreen_def
        GRID_SIZE_def Math_round_def distance_less_iff pt_def Let_def)
  show ?thesis
    unfolding run_fresh(1) [OF flat_fresh]
    by (simp only: flat_events_def foldl_append a b c)
qed

lemma flat_content:
  "scene_content flat_scene = (True, Some \<lparr>minX = - 2, minY = - 1, maxX = 14402, maxY = 1\<rparr>)"
  by (simp add: scene_content_def rooms_content_def paths_content_def labels_content_def
      include_box_def flat_scene_def flat_labels_def initial_def)

lemma flat_size:
  "export_size \<lparr>minX = - 2, minY = - 1, maxX = 14402, maxY = 1\<rparr> = (2400, 1800 / 1801)"
  by (simp add: export_size_def Let_def)

lemma flat_export:
  "handleExport True True flat_scene = (Download NoPixels, flat_scene)"
  by (simp add: handleExport_def flat_content flat_size toDataURL_def to_unsigned_long_def
      js_trunc_def)

text \<open>
  Claim C9. A scene without content gets the notice and no file, and the state is never
  changed (lemmas \<open>export_no_content\<close> and \<open>export_state\<close>); with content the handler
  downloads the data URL of the export canvas (lemma \<open>export_content\<close>). That data URL is
  not an image for every scene with content (lemma \<open>export_no_pixels\<close> says for which it
  is not): after the run above the scene holds two
  labels 14400 grid units apart on a line, its padded bounds are 14408 wide and 6 high,
  the export sizes are 2400 and 1800/1801, and the canvas stores the height 0. With the
  canvas element mounted and a 2D context available, the handler downloads the data URL
  of a canvas without pixels, and leaves the state as it was.
\<close>

theorem handleExport_flat_scene:
  "textLabels (run flat_events) = flat_labels
   \<and> scene_content (run flat_events)
       = (True, Some \<lparr>minX = - 2, minY = - 1, maxX = 14402, maxY = 1\<rparr>)
   \<and> export_size \<lparr>minX = - 2, minY = - 1, maxX = 14402, maxY = 1\<rparr> = (2400, 1800 / 1801)
   \<and> to_unsigned_long (1800 / 1801) = 0
   \<and> handleExport True True (run flat_events) = (Download NoPixels, run flat_events)"
  unfolding flat_run
  using flat_content flat_size flat_export
  by (simp add: flat_scene_def to_unsigned_long_def js_trunc_def)

end
